theory Spec2Isabelle
  imports Main "HOL-Library.Sublist" "HOL-Library.AList"
begin

section \<open>The amalgamation script \<^verbatim>\<open>singleheader/amalgamate.py\<close>\<close>

text \<open>
  A shallow embedding of the classes \<^verbatim>\<open>SimdjsonFile\<close>, \<^verbatim>\<open>SimdjsonRepository\<close> and
  \<^verbatim>\<open>Amalgamator\<close>. A \<^verbatim>\<open>SimdjsonFile\<close> object is identified by its \<^verbatim>\<open>include_path\<close>: the
  repository creates one object per path and the class defines neither \<^verbatim>\<open>__eq__\<close> nor
  \<^verbatim>\<open>__hash__\<close>, so object identity and path equality coincide. Characters are code points
  below 256. Every \<^verbatim>\<open>assert\<close> of the script is a branch that returns \<open>Inl\<close> of an error
  carrying the values its message interpolates.
\<close>

subsection \<open>Constants (lines 39-48)\<close>

definition IMPLEMENTATIONS :: "string list" where
  "IMPLEMENTATIONS = [''arm64'', ''fallback'', ''haswell'', ''icelake'', ''ppc64'', ''westmere'']"

definition BUILTIN_BEGIN_H :: string where
  "BUILTIN_BEGIN_H = ''simdjson/builtin/begin.h''"

definition BUILTIN_END_H :: string where
  "BUILTIN_END_H = ''simdjson/builtin/end.h''"

definition IMPLEMENTATION_DETECTION_H :: string where
  "IMPLEMENTATION_DETECTION_H = ''simdjson/implementation_detection.h''"

definition SIMDJSON_IMPLEMENTATION :: string where
  "SIMDJSON_IMPLEMENTATION = ''SIMDJSON_IMPLEMENTATION''"

definition SIMDJSON_AMALGAMATED :: string where
  "SIMDJSON_AMALGAMATED = ''SIMDJSON_AMALGAMATED''"

subsection \<open>Errors\<close>

text \<open>
  One constructor per \<^verbatim>\<open>assert\<close> (the line is given), with the interpolated values as
  arguments. \<open>OutOfFuel\<close> is no error of the script: it is the answer of the bounded
  recursion below when the bound on the include depth is too small.
\<close>

datatype error =
    OutOfFuel
  | ExistsInBoth                                \<comment> \<open>line 220 (the message is no f-string)\<close>
  | NotFound string "string list"               \<comment> \<open>line 222: filename, relative roots\<close>
  | CannotOpen string                           \<comment> \<open>line 294: \<^verbatim>\<open>open\<close> fails\<close>
  | CannotIncludeAmalgamated string string      \<comment> \<open>line 155: self, include\<close>
  | CannotIncludeWithoutIfndef string string    \<comment> \<open>lines 157 and 168: self, include\<close>
  | IfndefInNonAmalgamated string               \<comment> \<open>line 166: self\<close>
  | NotIncludedFrom string string string        \<comment> \<open>line 183: file, editor-only include, self\<close>
  | UnnecessaryIncludes string "string set"     \<comment> \<open>line 187: self, extra include set\<close>
  | DictChangedSize                             \<comment> \<open>RuntimeError of a dict iterator\<close>
  | GenericIncludedTwice string "string option" "string option"
                                                \<comment> \<open>line 253: file, including file, implementation\<close>
  | NoImplementation string                     \<comment> \<open>lines 254 and 274: file\<close>
  | CyclicInclude "string list" string          \<comment> \<open>line 280: include stack, file\<close>
  | BuiltinImplementationSet "string option"    \<comment> \<open>line 288\<close>
  | BuiltinAlreadyBegun                         \<comment> \<open>line 289\<close>
  | EditorOnlyRegionOpen                        \<comment> \<open>line 293\<close>
  | IfndefButNotAmalgamated string              \<comment> \<open>line 300: file\<close>
  | IfndefWithoutDefine string "string list"    \<comment> \<open>line 301: file, include stack\<close>
  | IfndefTwice string                          \<comment> \<open>line 302: file\<close>
  | EndifWithoutIfndef string                   \<comment> \<open>line 318: file\<close>
  | UseWhileNotDefined string string            \<comment> \<open>line 344: file, line\<close>
  | BadReplacement string                       \<comment> \<open>line 345: \<^verbatim>\<open>re.error\<close> of \<^verbatim>\<open>re.sub\<close>\<close>
  | DefinedInAmalgamated                        \<comment> \<open>line 350 (the message is no f-string)\<close>
  | Redefines string                            \<comment> \<open>line 351: file\<close>
  | UndefinedInAmalgamated                      \<comment> \<open>line 356 (the message is no f-string)\<close>
  | UndefinesWithoutDefine string               \<comment> \<open>line 357: file\<close>
  | EndedWithoutEndif string                    \<comment> \<open>line 363: file\<close>
  | BuiltinNotBegun                             \<comment> \<open>lines 369 and 373\<close>
  | ImplementationStillSet                      \<comment> \<open>line 372\<close>

subsection \<open>Character classes and the regular expressions of the script\<close>

text \<open>
  \<^verbatim>\<open>\s\<close> and \<^verbatim>\<open>\w\<close> of Python's \<^verbatim>\<open>re\<close> on \<^verbatim>\<open>str\<close> patterns, for the code points below 256.
\<close>

definition is_space :: "char \<Rightarrow> bool" where
  "is_space c = (of_char c \<in> {9, 10, 11, 12, 13, 28, 29, 30, 31, 32, 133, 160 :: nat})"

definition is_word :: "char \<Rightarrow> bool" where
  "is_word c = (let n = (of_char c :: nat) in
     (48 \<le> n \<and> n \<le> 57) \<or> (65 \<le> n \<and> n \<le> 90) \<or> n = 95 \<or> (97 \<le> n \<and> n \<le> 122)
     \<or> n \<in> {170, 178, 179, 181, 185, 186, 188, 189, 190}
     \<or> (192 \<le> n \<and> n \<le> 214) \<or> (216 \<le> n \<and> n \<le> 246) \<or> 248 \<le> n)"

text \<open>
  \<^verbatim>\<open>^KW\s+NAME\s*$\<close>, for a \<open>name\<close> that starts with no white space: the keyword, then at
  least one white space character, then the name, then white space only.
\<close>

definition directive :: "string \<Rightarrow> string \<Rightarrow> string \<Rightarrow> bool" where
  "directive kw name l =
     (prefix kw l \<and>
      (let r = drop (length kw) l; r' = dropWhile is_space r
       in r' \<noteq> r \<and> prefix name r' \<and> list_all is_space (drop (length name) r')))"

text \<open>\<^verbatim>\<open>^#ifndef\s+SIMDJSON_AMALGAMATED\s*$\<close> (line 299)\<close>

definition ifndef_amalgamated :: "string \<Rightarrow> bool" where
  "ifndef_amalgamated l = directive ''#ifndef'' SIMDJSON_AMALGAMATED l"

text \<open>\<^verbatim>\<open>^#endif\s*//\s*SIMDJSON_AMALGAMATED\s*$\<close> (line 306)\<close>

definition endif_amalgamated :: "string \<Rightarrow> bool" where
  "endif_amalgamated l =
     (prefix ''#endif'' l \<and>
      (let r = dropWhile is_space (drop 6 l)
       in prefix ''//'' r \<and>
          (let r' = dropWhile is_space (drop 2 r)
           in prefix SIMDJSON_AMALGAMATED r' \<and>
              list_all is_space (drop (length SIMDJSON_AMALGAMATED) r'))))"

text \<open>\<^verbatim>\<open>^#include "([^"]*)"\<close> (lines 311 and 321): the group, if the line matches.\<close>

definition included :: "string \<Rightarrow> string option" where
  "included l =
     (if prefix ''#include \"'' l \<and> CHR ''\"'' \<in> set (drop 10 l)
      then Some (takeWhile (\<lambda>c. c \<noteq> CHR ''\"'') (drop 10 l)) else None)"

text \<open>
  \<^verbatim>\<open>^#define\s+SIMDJSON_IMPLEMENTATION\s+(.+)$\<close> (line 330): the group, if the line matches.
  After the name comes at least one white space character and then at least one
  character: the group starts at the first character that is no white space, and is the
  last character when there is none. (A line read from a file holds no newline.)
\<close>

definition define_implementation :: "string \<Rightarrow> string option" where
  "define_implementation l =
     (if prefix ''#define'' l then
        (let r = drop 7 l; r' = dropWhile is_space r
         in if r' \<noteq> r \<and> prefix SIMDJSON_IMPLEMENTATION r' then
              (let t = drop (length SIMDJSON_IMPLEMENTATION) r'; t' = dropWhile is_space t
               in if t' \<noteq> t then (if t' \<noteq> [] then Some t'
                                    else if 2 \<le> length t then Some [last t] else None)
                  else None)
            else None)
      else None)"

text \<open>\<^verbatim>\<open>^#undef\s+SIMDJSON_IMPLEMENTATION\s*$\<close> (line 338)\<close>

definition undef_implementation :: "string \<Rightarrow> bool" where
  "undef_implementation l = directive ''#undef'' SIMDJSON_IMPLEMENTATION l"

text \<open>\<^verbatim>\<open>^#define\s+SIMDJSON_AMALGAMATED\s*$\<close> (line 348)\<close>

definition define_amalgamated :: "string \<Rightarrow> bool" where
  "define_amalgamated l = directive ''#define'' SIMDJSON_AMALGAMATED l"

text \<open>\<^verbatim>\<open>^#undef\s+SIMDJSON_AMALGAMATED\s*$\<close> (line 355)\<close>

definition undef_amalgamated :: "string \<Rightarrow> bool" where
  "undef_amalgamated l = directive ''#undef'' SIMDJSON_AMALGAMATED l"

text \<open>
  \<^verbatim>\<open>\bSIMDJSON_IMPLEMENTATION\b\<close> at the head of \<open>l\<close>, where \<open>pw\<close> says that the character
  before \<open>l\<close> is a word character: the name starts and ends with a word character, so
  the boundaries ask for no word character before it and none after it.
\<close>

definition token_here :: "bool \<Rightarrow> string \<Rightarrow> bool" where
  "token_here pw l =
     (\<not> pw \<and> prefix SIMDJSON_IMPLEMENTATION l \<and>
      (case drop (length SIMDJSON_IMPLEMENTATION) l of [] \<Rightarrow> True | c # _ \<Rightarrow> \<not> is_word c))"

text \<open>\<^verbatim>\<open>re.search(r'\bSIMDJSON_IMPLEMENTATION\b', line)\<close> (line 342)\<close>

fun search_token :: "bool \<Rightarrow> string \<Rightarrow> bool" where
  "search_token pw [] = False"
| "search_token pw (c # cs) = (token_here pw (c # cs) \<or> search_token (is_word c) cs)"

definition uses_implementation :: "string \<Rightarrow> bool" where
  "uses_implementation l = search_token False l"

text \<open>
  \<^verbatim>\<open>re.sub(r'\bSIMDJSON_IMPLEMENTATION\b', repl, line)\<close> (line 345) for a replacement
  \<open>repl\<close> that is inserted as it is: the matches are taken from left to right and do
  not overlap.
\<close>

fun sub_token :: "string \<Rightarrow> bool \<Rightarrow> string \<Rightarrow> string" where
  "sub_token repl pw [] = []"
| "sub_token repl pw (c # cs) =
     (if token_here pw (c # cs)
      then repl @ sub_token repl True (drop (length SIMDJSON_IMPLEMENTATION - 1) cs)
      else c # sub_token repl (is_word c) cs)"

text \<open>
  Python processes the backslash escapes of a replacement string before it inserts it,
  and raises \<^verbatim>\<open>re.error\<close> for a bad one; that is the work of the \<^verbatim>\<open>re\<close> module, not of
  the script, and is the parameter \<open>tmpl\<close> here (\<open>None\<close> for \<^verbatim>\<open>re.error\<close>). A
  replacement without a backslash is inserted as it is.
\<close>

definition re_sub :: "(string \<Rightarrow> string option) \<Rightarrow> string \<Rightarrow> string \<Rightarrow> error + string" where
  "re_sub tmpl repl l =
     (if CHR 0x5C \<in> set repl
      then (case tmpl repl of None \<Rightarrow> Inl (BadReplacement repl)
                           | Some r \<Rightarrow> Inr (sub_token r False l))
      else Inr (sub_token repl False l))"

subsection \<open>Paths (\<^verbatim>\<open>os.path.dirname\<close>, \<^verbatim>\<open>os.path.basename\<close> of POSIX)\<close>

definition basename :: "string \<Rightarrow> string" where
  "basename p = rev (takeWhile (\<lambda>c. c \<noteq> CHR ''/'') (rev p))"

definition dirname :: "string \<Rightarrow> string" where
  "dirname p =
     (let head = rev (dropWhile (\<lambda>c. c \<noteq> CHR ''/'') (rev p))
      in if head \<noteq> [] \<and> \<not> list_all (\<lambda>c. c = CHR ''/'') head
         then rev (dropWhile (\<lambda>c. c = CHR ''/'') (rev head)) else head)"

subsection \<open>Classification of a path (lines 75-150)\<close>

definition is_generic :: "string \<Rightarrow> bool" where
  "is_generic p = (prefix ''generic/'' p \<or> prefix ''simdjson/generic/'' p)"

definition include_dir :: "string \<Rightarrow> string" where
  "include_dir p = dirname p"

definition filename :: "string \<Rightarrow> string" where
  "filename p = basename p"

text \<open>
  \<^verbatim>\<open>re.search('(^|/)(arm64|...|westmere)', include_path)\<close>: the second group of the
  leftmost match. No name of the list is a prefix of another one.
\<close>

definition implementation_at :: "string \<Rightarrow> string option" where
  "implementation_at p = find (\<lambda>i. prefix i p) IMPLEMENTATIONS"

fun implementation_after_slash :: "string \<Rightarrow> string option" where
  "implementation_after_slash [] = None"
| "implementation_after_slash (c # cs) =
     (if c = CHR ''/'' then
        (case implementation_at cs of Some i \<Rightarrow> Some i
                                    | None \<Rightarrow> implementation_after_slash cs)
      else implementation_after_slash cs)"

definition implementation_of :: "string \<Rightarrow> string option" where
  "implementation_of p =
     (case implementation_at p of Some i \<Rightarrow> Some i | None \<Rightarrow> implementation_after_slash p)"

definition is_free_dependency_file :: "string \<Rightarrow> bool" where
  "is_free_dependency_file p = (filename p = ''dependencies.h'')"

text \<open>
  The path that the property \<^verbatim>\<open>free_dependency_file\<close> (lines 93-114) looks up in the
  repository, \<open>None\<close> where the property returns \<^verbatim>\<open>None\<close>.
\<close>

definition free_dependency_path :: "string \<Rightarrow> string option" where
  "free_dependency_path p =
     (if is_free_dependency_file p then None
      else if implementation_of p \<noteq> None then
        (if include_dir p = [] then Some ''generic/dependencies.h''
         else if filename p = ''ondemand.h'' then Some ''simdjson/generic/ondemand/dependencies.h''
         else Some ''simdjson/generic/dependencies.h'')
      else if prefix ''generic/'' p \<or> prefix ''simdjson/generic/'' p
        then Some (include_dir p @ ''/dependencies.h'')
      else None)"

text \<open>\<^verbatim>\<open>is_amalgamator\<close> (lines 116-121) reads the root of the file.\<close>

definition is_amalgamator :: "string \<Rightarrow> string \<Rightarrow> bool" where
  "is_amalgamator root p =
     (if implementation_of p \<noteq> None
      then root = ''src'' \<or> include_dir p = ''simdjson'' \<or> filename p = ''ondemand.h''
           \<or> filename p = ''implementation.h''
      else filename p = ''amalgamated.h'')"

subsection \<open>The environment of a run\<close>

text \<open>
  What the script reads and does not own: the source tree (for a root directory and a
  path below it, the lines of the text file there, each without its line terminator, or
  \<open>None\<close> where no file is), the list of root directories that \<^verbatim>\<open>amalgamate\<close> is
  given, and the escape processing of \<^verbatim>\<open>re.sub\<close>.
\<close>

record env =
  tree :: "string \<times> string \<Rightarrow> string list option"
  relative_roots :: "string list"
  re_template :: "string \<Rightarrow> string option"

subsection \<open>\<^verbatim>\<open>SimdjsonFile\<close> and \<^verbatim>\<open>SimdjsonRepository\<close> (lines 50-223)\<close>

text \<open>
  The fields of a file object that change. The field \<^verbatim>\<open>includes\<close> is \<open>includes_list\<close>
  here. The repository is the dict \<^verbatim>\<open>files\<close>, in insertion order.
\<close>

record simdjson_file =
  root :: string
  includes_list :: "string list"
  included_from :: "string set"
  editor_only_includes :: "string list"
  editor_only_included_from :: "string set"
  processed :: "bool option"

type_synonym repository = "(string \<times> simdjson_file) list"

definition new_file :: "string \<Rightarrow> simdjson_file" where
  "new_file r = \<lparr>root = r, includes_list = [], included_from = {}, editor_only_includes = [],
                 editor_only_included_from = {}, processed = None\<rparr>"

text \<open>
  The object of a path. Every object that the script handles came out of the repository;
  for a path that is not there the answer is an empty object with an empty root.
\<close>

definition file_of :: "repository \<Rightarrow> string \<Rightarrow> simdjson_file" where
  "file_of repo p = (case map_of repo p of Some f \<Rightarrow> f | None \<Rightarrow> new_file [])"

text \<open>\<^verbatim>\<open>__contains__\<close> (lines 202-206)\<close>

definition contains :: "repository \<Rightarrow> string \<Rightarrow> bool" where
  "contains repo p = (map_of repo p \<noteq> None)"

text \<open>\<^verbatim>\<open>_included_filename_root\<close> (lines 216-223): the loop, then the last assertion.\<close>

fun find_root :: "(string \<times> string \<Rightarrow> string list option) \<Rightarrow> string \<Rightarrow> string list
    \<Rightarrow> string option \<Rightarrow> error + string option" where
  "find_root t p [] result = Inr result"
| "find_root t p (r # rs) result =
     (if t (r, p) \<noteq> None
      then (if result \<noteq> None then Inl ExistsInBoth else find_root t p rs (Some r))
      else find_root t p rs result)"

definition included_filename_root :: "env \<Rightarrow> string \<Rightarrow> error + string" where
  "included_filename_root E p =
     (case find_root (tree E) p (relative_roots E) None of
        Inl e \<Rightarrow> Inl e
      | Inr None \<Rightarrow> Inl (NotFound p (relative_roots E))
      | Inr (Some r) \<Rightarrow> if r = [] then Inl (NotFound p (relative_roots E)) else Inr r)"

text \<open>\<^verbatim>\<open>__getitem__\<close> (lines 208-211): the repository with the object of \<open>p\<close> in it.\<close>

definition getitem :: "env \<Rightarrow> string \<Rightarrow> repository \<Rightarrow> error + repository" where
  "getitem E p repo =
     (if contains repo p then Inr repo
      else (case included_filename_root E p of
              Inl e \<Rightarrow> Inl e
            | Inr r \<Rightarrow> Inr (repo @ [(p, new_file r)])))"

text \<open>
  The property \<^verbatim>\<open>free_dependency_file\<close> (lines 93-114): the aggregator of \<open>p\<close>, if it has
  one, which the property fetches from the repository (and so creates, if it is new).
\<close>

definition free_dependency_file :: "env \<Rightarrow> string \<Rightarrow> repository
    \<Rightarrow> error + (string option \<times> repository)" where
  "free_dependency_file E p repo =
     (case free_dependency_path p of
        None \<Rightarrow> Inr (None, repo)
      | Some q \<Rightarrow> (case getitem E q repo of Inl e \<Rightarrow> Inl e | Inr repo' \<Rightarrow> Inr (Some q, repo')))"

definition is_free_dependency :: "env \<Rightarrow> string \<Rightarrow> repository \<Rightarrow> error + (bool \<times> repository)" where
  "is_free_dependency E p repo =
     (case free_dependency_file E p repo of
        Inl e \<Rightarrow> Inl e | Inr (d, repo') \<Rightarrow> Inr (d = None, repo'))"

definition is_amalgamated :: "env \<Rightarrow> string \<Rightarrow> repository \<Rightarrow> error + (bool \<times> repository)" where
  "is_amalgamated E p repo =
     (case is_free_dependency E p repo of
        Inl e \<Rightarrow> Inl e | Inr (b, repo') \<Rightarrow> Inr (\<not> b, repo'))"

text \<open>\<^verbatim>\<open>add_include\<close> (lines 152-163), of the object \<open>self\<close> for the object \<open>incl\<close>.\<close>

definition record_include :: "string \<Rightarrow> string \<Rightarrow> repository \<Rightarrow> repository" where
  "record_include self incl repo =
     AList.map_entry incl (\<lambda>f. f\<lparr>included_from := insert self (included_from f)\<rparr>)
       (AList.map_entry self (\<lambda>f. f\<lparr>includes_list := includes_list f @ [incl]\<rparr>) repo)"

definition add_include :: "env \<Rightarrow> string \<Rightarrow> string \<Rightarrow> repository \<Rightarrow> error + repository" where
  "add_include E self incl repo =
     (case is_free_dependency E self repo of
        Inl e \<Rightarrow> Inl e
      | Inr (True, repo1) \<Rightarrow>
          (case is_free_dependency E incl repo1 of
             Inl e \<Rightarrow> Inl e
           | Inr (b, repo2) \<Rightarrow>
               if b \<or> is_amalgamator (root (file_of repo2 incl)) incl
               then Inr (record_include self incl repo2)
               else Inl (CannotIncludeAmalgamated self incl))
      | Inr (False, repo1) \<Rightarrow>
          (case is_free_dependency E incl repo1 of
             Inl e \<Rightarrow> Inl e
           | Inr (b, repo2) \<Rightarrow>
               if \<not> b then Inr (record_include self incl repo2)
               else Inl (CannotIncludeWithoutIfndef self incl)))"

text \<open>\<^verbatim>\<open>add_editor_only_include\<close> (lines 165-174)\<close>

definition record_editor_only_include :: "string \<Rightarrow> string \<Rightarrow> repository \<Rightarrow> repository" where
  "record_editor_only_include self incl repo =
     AList.map_entry incl
       (\<lambda>f. f\<lparr>editor_only_included_from := insert self (editor_only_included_from f)\<rparr>)
       (AList.map_entry self
          (\<lambda>f. f\<lparr>editor_only_includes := editor_only_includes f @ [incl]\<rparr>) repo)"

definition add_editor_only_include :: "env \<Rightarrow> string \<Rightarrow> string \<Rightarrow> repository
    \<Rightarrow> error + repository" where
  "add_editor_only_include E self incl repo =
     (case is_amalgamated E self repo of
        Inl e \<Rightarrow> Inl e
      | Inr (a, repo1) \<Rightarrow>
          if \<not> a then Inl (IfndefInNonAmalgamated self)
          else (case is_free_dependency E incl repo1 of
                  Inl e \<Rightarrow> Inl e
                | Inr (False, repo2) \<Rightarrow> Inr (record_editor_only_include self incl repo2)
                | Inr (True, repo2) \<Rightarrow>
                    (case free_dependency_file E self repo2 of
                       Inl e \<Rightarrow> Inl e
                     | Inr (None, repo3) \<Rightarrow> Inl (CannotIncludeWithoutIfndef self incl)
                     | Inr (Some d, repo3) \<Rightarrow>
                         Inr (record_editor_only_include self incl repo3))))"

subsection \<open>The completeness check (lines 176-197)\<close>

text \<open>
  Both loops of the check run over the dict of the repository, whose iterator raises a
  \<^verbatim>\<open>RuntimeError\<close> at the next step once the dict has grown: \<open>n\<close> is the size that the
  dict had when the loop began.

  The innermost loop (lines 181-185), over the editor-only includes of \<open>file\<close>, with the
  set \<^verbatim>\<open>extra_include_set\<close>.
\<close>

fun validate_editor_only :: "env \<Rightarrow> string \<Rightarrow> string \<Rightarrow> string list \<Rightarrow> repository \<times> string set
    \<Rightarrow> error + (repository \<times> string set)" where
  "validate_editor_only E self file [] (repo, extra) = Inr (repo, extra)"
| "validate_editor_only E self file (i # is) (repo, extra) =
     (case is_free_dependency E i repo of
        Inl e \<Rightarrow> Inl e
      | Inr (b, repo1) \<Rightarrow>
          if b then
            (if i \<notin> set (includes_list (file_of repo1 self))
             then Inl (NotIncludedFrom file i self)
             else validate_editor_only E self file is (repo1, extra - {i}))
          else validate_editor_only E self file is (repo1, extra))"

text \<open>The loop over the files of the repository (lines 179-185).\<close>

fun validate_files :: "env \<Rightarrow> string \<Rightarrow> nat \<Rightarrow> string list \<Rightarrow> repository \<times> string set
    \<Rightarrow> error + (repository \<times> string set)" where
  "validate_files E self n [] (repo, extra) =
     (if length repo \<noteq> n then Inl DictChangedSize else Inr (repo, extra))"
| "validate_files E self n (file # files) (repo, extra) =
     (if length repo \<noteq> n then Inl DictChangedSize
      else (case free_dependency_file E file repo of
              Inl e \<Rightarrow> Inl e
            | Inr (d, repo1) \<Rightarrow>
                if d = Some self then
                  (case validate_editor_only E self file
                          (editor_only_includes (file_of repo1 file)) (repo1, extra) of
                     Inl e \<Rightarrow> Inl e
                   | Inr st \<Rightarrow> validate_files E self n files st)
                else validate_files E self n files (repo1, extra)))"

definition validate_free_dependency_file :: "env \<Rightarrow> string \<Rightarrow> repository \<Rightarrow> error + repository" where
  "validate_free_dependency_file E self repo =
     (if is_free_dependency_file self then
        (case validate_files E self (length repo) (map fst repo)
                (repo, set (includes_list (file_of repo self))) of
           Inl e \<Rightarrow> Inl e
         | Inr (repo1, extra) \<Rightarrow>
             if extra \<noteq> {} then Inl (UnnecessaryIncludes self extra) else Inr repo1)
      else Inr repo)"

text \<open>\<^verbatim>\<open>validate_free_dependency_files\<close> (lines 195-197)\<close>

fun validate_all :: "env \<Rightarrow> nat \<Rightarrow> string list \<Rightarrow> repository \<Rightarrow> error + repository" where
  "validate_all E n [] repo = (if length repo \<noteq> n then Inl DictChangedSize else Inr repo)"
| "validate_all E n (file # files) repo =
     (if length repo \<noteq> n then Inl DictChangedSize
      else (case validate_free_dependency_file E file repo of
              Inl e \<Rightarrow> Inl e
            | Inr repo1 \<Rightarrow> validate_all E n files repo1))"

definition validate_free_dependency_files :: "env \<Rightarrow> repository \<Rightarrow> error + repository" where
  "validate_free_dependency_files E repo = validate_all E (length repo) (map fst repo) repo"

subsection \<open>\<^verbatim>\<open>Amalgamator\<close> (lines 226-378)\<close>

text \<open>
  The state of an amalgamator. \<open>fid\<close> holds the lines printed to the output file so far;
  \<open>repository\<close> is the repository that the amalgamator owns.
\<close>

record amalgamator =
  fid :: "string list"
  repository :: repository
  builtin_implementation :: bool
  implementation :: "string option"
  found_includes :: "string set"
  found_includes_per_amalgamation :: "string set"
  found_generic_includes :: "(string \<times> string option) list"
  amalgamated_defined :: bool
  editor_only_region :: bool
  include_stack :: "string list"

text \<open>\<^verbatim>\<open>write\<close> (lines 269-270), here \<open>write_out\<close>\<close>

definition write_out :: "string \<Rightarrow> amalgamator \<Rightarrow> amalgamator" where
  "write_out line a = a\<lparr>fid := fid a @ [line]\<rparr>"

text \<open>The truth value of an \<^verbatim>\<open>Optional[str]\<close>, and its \<^verbatim>\<open>str\<close> in an f-string.\<close>

definition truthy :: "string option \<Rightarrow> bool" where
  "truthy v = (case v of None \<Rightarrow> False | Some x \<Rightarrow> x \<noteq> [])"

definition str_of :: "string option \<Rightarrow> string" where
  "str_of v = (case v of None \<Rightarrow> ''None'' | Some x \<Rightarrow> x)"

text \<open>
  \<^verbatim>\<open>file == BUILTIN_BEGIN_H\<close> (line 287) compares a \<^verbatim>\<open>SimdjsonFile\<close> with a \<^verbatim>\<open>str\<close>. The
  class defines no \<^verbatim>\<open>__eq__\<close>, so the comparison is by identity and is false.
\<close>

definition file_equals_str :: "string \<Rightarrow> string \<Rightarrow> bool" where
  "file_equals_str file s = False"

text \<open>\<^verbatim>\<open>file_to_str\<close> (lines 272-276)\<close>

definition file_to_str :: "env \<Rightarrow> string \<Rightarrow> amalgamator \<Rightarrow> error + (string \<times> amalgamator)" where
  "file_to_str E file a =
     (if is_generic file then
        (case is_amalgamated E file (repository a) of
           Inl e \<Rightarrow> Inl e
         | Inr (am, repo) \<Rightarrow>
             if am then
               (if \<not> truthy (implementation a) then Inl (NoImplementation file)
                else Inr (file @ '' for '' @ str_of (implementation a), a\<lparr>repository := repo\<rparr>))
             else Inr (file, a\<lparr>repository := repo\<rparr>))
      else Inr (file, a))"

text \<open>
  The first part of \<^verbatim>\<open>maybe_write_file\<close> (lines 250-264): whether the file is skipped as
  a duplicate, and the state with the file recorded as seen.
\<close>

definition seen_before :: "env \<Rightarrow> string \<Rightarrow> string option \<Rightarrow> amalgamator
    \<Rightarrow> error + (bool \<times> amalgamator)" where
  "seen_before E file including_file a =
     (case is_amalgamated E file (repository a) of
        Inl e \<Rightarrow> Inl e
      | Inr (am, repo) \<Rightarrow>
          (let a1 = a\<lparr>repository := repo\<rparr> in
           if am then
             (if is_generic file then
                (if (file, implementation a1) \<in> set (found_generic_includes a1)
                 then Inl (GenericIncludedTwice file including_file (implementation a1))
                 else if \<not> truthy (implementation a1) then Inl (NoImplementation file)
                 else Inr (False, a1\<lparr>found_generic_includes :=
                             found_generic_includes a1 @ [(file, implementation a1)]\<rparr>))
              else Inr (False, a1\<lparr>found_includes_per_amalgamation :=
                             insert file (found_includes_per_amalgamation a1)\<rparr>))
           else
             (if file \<in> found_includes a1 then Inr (True, a1)
              else Inr (False, a1\<lparr>found_includes := insert file (found_includes a1)\<rparr>))))"

text \<open>
  The lines 298-303 of the loop of \<^verbatim>\<open>write_file\<close>: an \<^verbatim>\<open>#ifndef SIMDJSON_AMALGAMATED\<close>
  opens the editor-only region.
\<close>

definition begin_editor_only :: "env \<Rightarrow> string \<Rightarrow> string \<Rightarrow> amalgamator \<Rightarrow> error + amalgamator" where
  "begin_editor_only E file line a =
     (if ifndef_amalgamated line then
        (case is_amalgamated E file (repository a) of
           Inl e \<Rightarrow> Inl e
         | Inr (am, repo) \<Rightarrow>
             if \<not> am then Inl (IfndefButNotAmalgamated file)
             else if \<not> amalgamated_defined a then Inl (IfndefWithoutDefine file (include_stack a))
             else if editor_only_region a then Inl (IfndefTwice file)
             else Inr (a\<lparr>repository := repo, editor_only_region := True\<rparr>))
      else Inr a)"

text \<open>The lines 308-316: a line inside the editor-only region.\<close>

definition editor_only_line :: "env \<Rightarrow> string \<Rightarrow> string \<Rightarrow> amalgamator \<Rightarrow> error + amalgamator" where
  "editor_only_line E file line a =
     (let a1 = write_out (''/* amalgamation skipped (editor-only): '' @ line @ '' */'') a in
      case (case included line of
              None \<Rightarrow> Inr a1
            | Some p \<Rightarrow>
                (case getitem E p (repository a1) of
                   Inl e \<Rightarrow> Inl e
                 | Inr repo \<Rightarrow>
                     (case add_editor_only_include E file p repo of
                        Inl e \<Rightarrow> Inl e
                      | Inr repo1 \<Rightarrow> Inr (a1\<lparr>repository := repo1\<rparr>)))) of
        Inl e \<Rightarrow> Inl e
      | Inr a2 \<Rightarrow> Inr (if endif_amalgamated line then a2\<lparr>editor_only_region := False\<rparr> else a2))"

text \<open>The lines 324-325: the object of an included path, and \<^verbatim>\<open>add_include\<close>.\<close>

definition include_line :: "env \<Rightarrow> string \<Rightarrow> string \<Rightarrow> amalgamator \<Rightarrow> error + amalgamator" where
  "include_line E file p a =
     (case getitem E p (repository a) of
        Inl e \<Rightarrow> Inl e
      | Inr repo \<Rightarrow>
          (case add_include E file p repo of
             Inl e \<Rightarrow> Inl e
           | Inr repo1 \<Rightarrow> Inr (a\<lparr>repository := repo1\<rparr>)))"

text \<open>
  The lines 329-345: defining, undefining and replacing \<^verbatim>\<open>SIMDJSON_IMPLEMENTATION\<close>. The
  result is the line as it goes on, and the state.
\<close>

definition implementation_line :: "env \<Rightarrow> string \<Rightarrow> string \<Rightarrow> amalgamator
    \<Rightarrow> error + (string \<times> amalgamator)" where
  "implementation_line E file line a =
     (case define_implementation line of
        Some v \<Rightarrow>
          (let old_implementation = implementation a; a1 = a\<lparr>implementation := Some v\<rparr> in
           if old_implementation = None
           then Inr (line, write_out (''/* defining SIMDJSON_IMPLEMENTATION to \"'' @ v @ ''\" */'') a1)
           else Inr (line, write_out (''/* redefining SIMDJSON_IMPLEMENTATION from \"''
                                   @ str_of old_implementation @ ''\" to \"'' @ v @ ''\" */'') a1))
      | None \<Rightarrow>
          if undef_implementation line then
            Inr (line, (write_out (''/* undefining SIMDJSON_IMPLEMENTATION from \"''
                               @ str_of (implementation a) @ ''\" */'') a)\<lparr>implementation := None\<rparr>)
          else if uses_implementation line \<and> file \<noteq> IMPLEMENTATION_DETECTION_H then
            (if \<not> truthy (implementation a) then Inl (UseWhileNotDefined file line)
             else (case re_sub (re_template E) (str_of (implementation a)) line of
                     Inl e \<Rightarrow> Inl e
                   | Inr line1 \<Rightarrow> Inr (line1, a)))
          else Inr (line, a))"

text \<open>The lines 347-359: defining and undefining \<^verbatim>\<open>SIMDJSON_AMALGAMATED\<close>.\<close>

definition amalgamated_line :: "env \<Rightarrow> string \<Rightarrow> string \<Rightarrow> amalgamator \<Rightarrow> error + amalgamator" where
  "amalgamated_line E file line a =
     (if define_amalgamated line then
        (case is_amalgamated E file (repository a) of
           Inl e \<Rightarrow> Inl e
         | Inr (am, repo) \<Rightarrow>
             if am then Inl DefinedInAmalgamated
             else if amalgamated_defined a then Inl (Redefines file)
             else Inr (write_out ''/* defining SIMDJSON_AMALGAMATED */''
                         (a\<lparr>repository := repo, amalgamated_defined := True,
                            found_includes_per_amalgamation := {}\<rparr>)))
      else if undef_amalgamated line then
        (case is_amalgamated E file (repository a) of
           Inl e \<Rightarrow> Inl e
         | Inr (am, repo) \<Rightarrow>
             if am then Inl UndefinedInAmalgamated
             else if \<not> amalgamated_defined a then Inl (UndefinesWithoutDefine file)
             else Inr ((write_out ''/* undefining SIMDJSON_AMALGAMATED */''
                          (a\<lparr>repository := repo\<rparr>))\<lparr>amalgamated_defined := False\<rparr>))
      else Inr a)"

text \<open>The lines 329-361: a line that is no include, outside the editor-only region.\<close>

definition other_line :: "env \<Rightarrow> string \<Rightarrow> string \<Rightarrow> amalgamator \<Rightarrow> error + amalgamator" where
  "other_line E file line a =
     (case implementation_line E file line a of
        Inl e \<Rightarrow> Inl e
      | Inr (line1, a1) \<Rightarrow>
          (case amalgamated_line E file line1 a1 of
             Inl e \<Rightarrow> Inl e
           | Inr a2 \<Rightarrow> Inr (write_out line1 a2)))"

text \<open>The lines 278-293 of \<^verbatim>\<open>write_file\<close>, before the file is read.\<close>

definition set_processed :: "string \<Rightarrow> bool \<Rightarrow> repository \<Rightarrow> repository" where
  "set_processed file b repo = AList.map_entry file (\<lambda>f. f\<lparr>processed := Some b\<rparr>) repo"

definition begin_file :: "env \<Rightarrow> string \<Rightarrow> amalgamator \<Rightarrow> error + amalgamator" where
  "begin_file E file a =
     (if file \<in> set (include_stack a) then Inl (CyclicInclude (include_stack a) file)
      else
        (let a1 = a\<lparr>include_stack := include_stack a @ [file],
                    repository := set_processed file False (repository a)\<rparr> in
         case file_to_str E file a1 of
           Inl e \<Rightarrow> Inl e
         | Inr (s, a2) \<Rightarrow>
             (let a3 = write_out (''/* begin file '' @ s @ '' */'') a2 in
              case (if file_equals_str file BUILTIN_BEGIN_H then
                      (if implementation a3 \<noteq> None
                       then Inl (BuiltinImplementationSet (implementation a3))
                       else if builtin_implementation a3 then Inl BuiltinAlreadyBegun
                       else Inr (a3\<lparr>builtin_implementation := True,
                                    implementation := Some ''SIMDJSON_BUILTIN_IMPLEMENTATION''\<rparr>))
                    else Inr a3) of
                Inl e \<Rightarrow> Inl e
              | Inr a4 \<Rightarrow> if editor_only_region a4 then Inl EditorOnlyRegionOpen else Inr a4)))"

text \<open>The lines 363-378 of \<^verbatim>\<open>write_file\<close>, after the last line of the file.\<close>

definition end_file :: "env \<Rightarrow> string \<Rightarrow> amalgamator \<Rightarrow> error + amalgamator" where
  "end_file E file a =
     (if editor_only_region a then Inl (EndedWithoutEndif file)
      else
        (case file_to_str E file a of
           Inl e \<Rightarrow> Inl e
         | Inr (s, a1) \<Rightarrow>
             (let a2 = write_out (''/* end file '' @ s @ '' */'') a1 in
              case (if file = BUILTIN_BEGIN_H then
                      (if \<not> builtin_implementation a2 then Inl BuiltinNotBegun
                       else Inr (a2\<lparr>implementation := Some ''SIMDJSON_BUILTIN_IMPLEMENTATION''\<rparr>))
                    else if file = BUILTIN_END_H then
                      (if implementation a2 \<noteq> None then Inl ImplementationStillSet
                       else if \<not> builtin_implementation a2 then Inl BuiltinNotBegun
                       else Inr (a2\<lparr>implementation := None\<rparr>))
                    else Inr a2) of
                Inl e \<Rightarrow> Inl e
              | Inr a3 \<Rightarrow>
                  Inr (a3\<lparr>repository := set_processed file True (repository a3),
                          include_stack := butlast (include_stack a3)\<rparr>))))"

text \<open>Sequencing: an error ends the run, a result goes on into \<open>k\<close>.\<close>

definition and_then :: "error + 'a \<Rightarrow> ('a \<Rightarrow> error + 'b) \<Rightarrow> error + 'b" where
  "and_then m k = (case m of Inl e \<Rightarrow> Inl e | Inr x \<Rightarrow> k x)"

text \<open>
  \<^verbatim>\<open>write_file\<close> (lines 278-378), the loop over the lines of a file (lines 295-361) and
  \<^verbatim>\<open>maybe_write_file\<close> (lines 249-267). The first argument bounds the depth of the
  includes: \<^verbatim>\<open>write_file\<close> at depth \<open>0\<close> is \<open>OutOfFuel\<close>.
\<close>

function (sequential) write_file :: "nat \<Rightarrow> env \<Rightarrow> string \<Rightarrow> amalgamator \<Rightarrow> error + amalgamator"
  and write_lines :: "nat \<Rightarrow> env \<Rightarrow> string \<Rightarrow> string list \<Rightarrow> amalgamator \<Rightarrow> error + amalgamator"
  and maybe_write_file :: "nat \<Rightarrow> env \<Rightarrow> string \<Rightarrow> string option \<Rightarrow> string \<Rightarrow> amalgamator
    \<Rightarrow> error + amalgamator" where
  "write_file 0 E file a = Inl OutOfFuel"
| "write_file (Suc n) E file a =
     and_then (begin_file E file a) (\<lambda>a1.
       case tree E (root (file_of (repository a1) file), file) of
         None \<Rightarrow> Inl (CannotOpen file)
       | Some lines \<Rightarrow>
           and_then (write_lines n E file lines a1) (\<lambda>a2. end_file E file a2))"
| "write_lines n E file [] a = Inr a"
| "write_lines n E file (line # lines) a =
     and_then (begin_editor_only E file line a) (\<lambda>a1.
       if editor_only_region a1 then
         and_then (editor_only_line E file line a1) (\<lambda>a2. write_lines n E file lines a2)
       else if endif_amalgamated line then Inl (EndifWithoutIfndef file)
       else
         (case included line of
            Some p \<Rightarrow>
              and_then (include_line E file p a1) (\<lambda>a2.
                and_then (maybe_write_file n E p (Some file) line a2) (\<lambda>a3.
                  write_lines n E file lines a3))
          | None \<Rightarrow>
              and_then (other_line E file line a1) (\<lambda>a2. write_lines n E file lines a2)))"
| "maybe_write_file n E file including_file else_line a =
     and_then (seen_before E file including_file a) (\<lambda>(skip, a1).
       if skip then Inr (write_out (''/* skipped duplicate '' @ else_line @ '' */'') a1)
       else
         and_then (file_to_str E file a1) (\<lambda>(s, a2).
           write_file n E file
             (write_out (''/* including '' @ s @ '': '' @ else_line @ '' */'') a2)))"
  by pat_completeness auto
termination
  by (relation "inv_image (less_than <*lex*> less_than <*lex*> less_than)
       (\<lambda>x. case x of Inl (n, _) \<Rightarrow> (n, 0::nat, 0::nat)
                | Inr (Inl (n, _, _, ls, _)) \<Rightarrow> (n, 2, length ls)
                | Inr (Inr (n, _)) \<Rightarrow> (n, 1, 0))") auto

text \<open>
  \<^verbatim>\<open>amalgamate\<close> (lines 227-235): the lines of the output file once it is closed. The
  amalgamator and its repository are made anew for every call.
\<close>

definition new_amalgamator :: "string list \<Rightarrow> amalgamator" where
  "new_amalgamator out =
     \<lparr>fid = out, repository = [], builtin_implementation = False, implementation = None,
      found_includes = {}, found_includes_per_amalgamation = {}, found_generic_includes = [],
      amalgamated_defined = False, editor_only_region = False, include_stack = []\<rparr>"

definition amalgamate :: "nat \<Rightarrow> env \<Rightarrow> string \<Rightarrow> string \<Rightarrow> error + string list" where
  "amalgamate n E file timestamp =
     (let a = new_amalgamator [''/* auto-generated on '' @ timestamp @ ''. Do not edit! */''] in
      and_then (getitem E file (repository a)) (\<lambda>repo.
        and_then (maybe_write_file n E file None [] (a\<lparr>repository := repo\<rparr>)) (\<lambda>a1.
          and_then (validate_free_dependency_files E (repository a1)) (\<lambda>repo1.
            Inr (fid a1)))))"

subsection \<open>The substitution, in the words of the specification\<close>

text \<open>
  The specification speaks of every occurrence of the placeholder in a line being
  replaced. Read as follows: the line is cut into its maximal runs of word characters,
  with every other character on its own, and each run that is the name
  \<^verbatim>\<open>SIMDJSON_IMPLEMENTATION\<close> is replaced. This is compared with \<open>sub_token\<close> below.
\<close>

function split_words :: "string \<Rightarrow> string list" where
  "split_words [] = []"
| "split_words (c # cs) =
     (if is_word c then (c # takeWhile is_word cs) # split_words (dropWhile is_word cs)
      else [c] # split_words cs)"
  by pat_completeness auto
termination
  by (relation "measure length") (auto simp: length_dropWhile_le less_Suc_eq_le)

definition replace_placeholder :: "string \<Rightarrow> string \<Rightarrow> string" where
  "replace_placeholder x l =
     concat (map (\<lambda>w. if w = SIMDJSON_IMPLEMENTATION then x else w) (split_words l))"

subsection \<open>What a run keeps\<close>

text \<open>
  Between two states of one run: no file leaves \<^verbatim>\<open>found_includes\<close>, the list
  \<^verbatim>\<open>found_generic_includes\<close> is only appended to and stays free of duplicates, and the
  include stack is the same.
\<close>

definition seen_grows :: "amalgamator \<Rightarrow> amalgamator \<Rightarrow> bool" where
  "seen_grows a a' \<longleftrightarrow>
     found_includes a \<subseteq> found_includes a' \<and>
     prefix (found_generic_includes a) (found_generic_includes a') \<and>
     (distinct (found_generic_includes a) \<longrightarrow> distinct (found_generic_includes a')) \<and>
     include_stack a' = include_stack a"

subsection \<open>What the completeness check compares\<close>

text \<open>
  The files whose aggregator is \<open>self\<close>, in the order of the repository (line 180); the
  pairs of such a file and a free-dependency file among its editor-only includes (lines
  181-182), in the order of the two loops; and the condition under which the properties
  that the check evaluates find every aggregator in the repository already.
\<close>

definition governed :: "repository \<Rightarrow> string \<Rightarrow> string list" where
  "governed repo self = filter (\<lambda>file. free_dependency_path file = Some self) (map fst repo)"

definition free_editor_only_includes :: "repository \<Rightarrow> string \<Rightarrow> (string \<times> string) list" where
  "free_editor_only_includes repo file =
     map (Pair file)
       (filter (\<lambda>i. free_dependency_path i = None) (editor_only_includes (file_of repo file)))"

definition required_includes :: "repository \<Rightarrow> string \<Rightarrow> (string \<times> string) list" where
  "required_includes repo self = concat (map (free_editor_only_includes repo) (governed repo self))"

definition aggregator_known :: "repository \<Rightarrow> string \<Rightarrow> bool" where
  "aggregator_known repo p =
     (case free_dependency_path p of None \<Rightarrow> True | Some q \<Rightarrow> contains repo q)"

definition aggregators_known :: "repository \<Rightarrow> bool" where
  "aggregators_known repo =
     list_all (\<lambda>(p, f). aggregator_known repo p \<and>
                 list_all (aggregator_known repo) (editor_only_includes f)) repo"

text \<open>
  While a file is being fetched and classified, the repository holds the files \<open>ps\<close>
  whose aggregator has not been looked up yet.
\<close>

definition known_except :: "string list \<Rightarrow> repository \<Rightarrow> bool" where
  "known_except ps repo =
     list_all (\<lambda>(q, f). (q \<in> set ps \<or> aggregator_known repo q) \<and>
                 list_all (aggregator_known repo) (editor_only_includes f)) repo"

subsection \<open>Source trees used as examples\<close>

text \<open>
  A public header that includes \<^verbatim>\<open>simdjson/arm64.h\<close> twice; the aggregator that governs
  \<^verbatim>\<open>simdjson/arm64.h\<close> exists.
\<close>

definition tree_arm64_twice :: env where
  "tree_arm64_twice =
     \<lparr>tree = map_of
        [((''include'', ''simdjson.h''),
          [''#include \"simdjson/arm64.h\"'', ''#include \"simdjson/arm64.h\"'']),
         ((''include'', ''simdjson/arm64.h''), [''int x;'']),
         ((''include'', ''simdjson/generic/dependencies.h''), [])],
      relative_roots = [''include''], re_template = (\<lambda>s. None)\<rparr>"

text \<open>The same two files without the aggregator.\<close>

definition tree_no_aggregator :: env where
  "tree_no_aggregator =
     \<lparr>tree = map_of
        [((''include'', ''simdjson.h''), [''#include \"simdjson/arm64.h\"'']),
         ((''include'', ''simdjson/arm64.h''), [''int x;''])],
      relative_roots = [''include''], re_template = (\<lambda>s. None)\<rparr>"

text \<open>A repository that holds the objects of the two files, and what \<^verbatim>\<open>add_include\<close>
  makes of it.\<close>

definition repository_two_files :: repository where
  "repository_two_files =
     [(''simdjson.h'', new_file ''include''), (''simdjson/arm64.h'', new_file ''include'')]"

definition repository_two_files_included :: repository where
  "repository_two_files_included =
     [(''simdjson.h'', (new_file ''include'')\<lparr>includes_list := [''simdjson/arm64.h'']\<rparr>),
      (''simdjson/arm64.h'', (new_file ''include'')\<lparr>included_from := {''simdjson.h''}\<rparr>),
      (''simdjson/generic/dependencies.h'', new_file ''include'')]"

text \<open>
  An amalgamator that is writing \<^verbatim>\<open>simdjson.h\<close>, outside the editor-only region, with
  \<^verbatim>\<open>simdjson/arm64.h\<close> seen in this amalgamation; the same with the flag defined; and
  the same with the implementation \<^verbatim>\<open>arm64\<close> defined.
\<close>

definition amalgamator_in_header :: amalgamator where
  "amalgamator_in_header =
     (new_amalgamator [])\<lparr>repository := repository_two_files,
        found_includes := {''simdjson.h''},
        found_includes_per_amalgamation := {''simdjson/arm64.h''},
        include_stack := [''simdjson.h'']\<rparr>"

definition amalgamator_flag_defined :: amalgamator where
  "amalgamator_flag_defined = amalgamator_in_header\<lparr>amalgamated_defined := True\<rparr>"

definition amalgamator_arm64 :: amalgamator where
  "amalgamator_arm64 = amalgamator_in_header\<lparr>implementation := Some ''arm64''\<rparr>"

text \<open>
  A header whose third line holds the placeholder and, once the placeholder is replaced,
  reads as a definition of the flag.
\<close>

definition tree_placeholder_becomes_flag :: env where
  "tree_placeholder_becomes_flag =
     \<lparr>tree = map_of
        [((''include'', ''simdjson.h''),
          [''#define SIMDJSON_AMALGAMATED'',
           ''#define SIMDJSON_IMPLEMENTATION SIMDJSON_AMALGAMATED'',
           ''#define SIMDJSON_IMPLEMENTATION''])],
      relative_roots = [''include''], re_template = (\<lambda>s. None)\<rparr>"

text \<open>Two free-dependency files that include each other.\<close>

definition tree_cycle :: env where
  "tree_cycle =
     \<lparr>tree = map_of
        [((''include'', ''simdjson.h''), [''#include \"a.h\"'']),
         ((''include'', ''a.h''), [''#include \"simdjson.h\"''])],
      relative_roots = [''include''], re_template = (\<lambda>s. None)\<rparr>"

text \<open>Two amalgamated files that include each other.\<close>

definition tree_amalgamated_cycle :: env where
  "tree_amalgamated_cycle =
     \<lparr>tree = map_of
        [((''include'', ''simdjson.h''), [''#include \"simdjson/arm64.h\"'']),
         ((''include'', ''simdjson/arm64.h''), [''#include \"simdjson/arm64/a.h\"'']),
         ((''include'', ''simdjson/arm64/a.h''), [''#include \"simdjson/arm64.h\"'']),
         ((''include'', ''simdjson/generic/dependencies.h''), [])],
      relative_roots = [''include''], re_template = (\<lambda>s. None)\<rparr>"

definition amalgamator_in_cycle :: amalgamator where
  "amalgamator_in_cycle =
     (new_amalgamator [])\<lparr>repository :=
          [(''simdjson.h'', new_file ''include''), (''simdjson/arm64.h'', new_file ''include''),
           (''simdjson/generic/dependencies.h'', new_file ''include''),
           (''simdjson/arm64/a.h'', new_file ''include'')],
        found_includes := {''simdjson.h''},
        found_includes_per_amalgamation := {''simdjson/arm64.h'', ''simdjson/arm64/a.h''},
        include_stack := [''simdjson.h'', ''simdjson/arm64.h'', ''simdjson/arm64/a.h'']\<rparr>"

text \<open>
  A header that includes the aggregator \<^verbatim>\<open>generic/dependencies.h\<close> twice, with no
  implementation defined; and one that defines the implementation \<^verbatim>\<open>arm64\<close> and
  includes the generic file \<^verbatim>\<open>generic/amalgamated.h\<close> twice.
\<close>

definition tree_generic_aggregator_twice :: env where
  "tree_generic_aggregator_twice =
     \<lparr>tree = map_of
        [((''include'', ''simdjson.h''),
          [''#include \"generic/dependencies.h\"'', ''#include \"generic/dependencies.h\"'']),
         ((''include'', ''generic/dependencies.h''), [''int x;''])],
      relative_roots = [''include''], re_template = (\<lambda>s. None)\<rparr>"

definition tree_generic_twice :: env where
  "tree_generic_twice =
     \<lparr>tree = map_of
        [((''include'', ''simdjson.h''),
          [''#define SIMDJSON_IMPLEMENTATION arm64'',
           ''#include \"generic/amalgamated.h\"'', ''#include \"generic/amalgamated.h\"'']),
         ((''include'', ''generic/amalgamated.h''), [''int x;'']),
         ((''include'', ''generic/dependencies.h''), [])],
      relative_roots = [''include''], re_template = (\<lambda>s. None)\<rparr>"

definition amalgamator_generic_seen :: amalgamator where
  "amalgamator_generic_seen =
     (new_amalgamator [])\<lparr>repository :=
          [(''simdjson.h'', new_file ''include''), (''generic/amalgamated.h'', new_file ''include''),
           (''generic/dependencies.h'', new_file ''include'')],
        implementation := Some ''arm64'',
        found_includes := {''simdjson.h''},
        found_generic_includes := [(''generic/amalgamated.h'', Some ''arm64'')],
        include_stack := [''simdjson.h'']\<rparr>"

definition amalgamator_generic_haswell :: amalgamator where
  "amalgamator_generic_haswell = amalgamator_generic_seen\<lparr>implementation := Some ''haswell''\<rparr>"

definition amalgamator_generic_written :: amalgamator where
  "amalgamator_generic_written =
     amalgamator_generic_haswell\<lparr>
       fid := [''/* including generic/amalgamated.h for haswell: #include \"generic/amalgamated.h\" */'',
               ''/* begin file generic/amalgamated.h for haswell */'', ''int x;'',
               ''/* end file generic/amalgamated.h for haswell */''],
       repository :=
          [(''simdjson.h'', new_file ''include''),
           (''generic/amalgamated.h'', (new_file ''include'')\<lparr>processed := Some True\<rparr>),
           (''generic/dependencies.h'', new_file ''include'')],
       found_generic_includes :=
          [(''generic/amalgamated.h'', Some ''arm64''), (''generic/amalgamated.h'', Some ''haswell'')]\<rparr>"

text \<open>
  An amalgamated file with two editor-only includes that its aggregator does not include,
  and the repository that the run over this tree builds up to the relations; a tree and a
  repository whose aggregator includes \<^verbatim>\<open>x.h\<close> for no file; and a repository whose
  aggregator includes what is needed and no more.
\<close>

definition repository_two_missing :: repository where
  "repository_two_missing =
     [(''simdjson.h'', (new_file ''include'')\<lparr>includes_list := [''simdjson/arm64.h'']\<rparr>),
      (''simdjson/arm64.h'', (new_file ''include'')\<lparr>included_from := {''simdjson.h''},
          editor_only_includes := [''a.h'', ''b.h'']\<rparr>),
      (''simdjson/generic/dependencies.h'', new_file ''include''),
      (''a.h'', (new_file ''include'')\<lparr>editor_only_included_from := {''simdjson/arm64.h''}\<rparr>),
      (''b.h'', (new_file ''include'')\<lparr>editor_only_included_from := {''simdjson/arm64.h''}\<rparr>)]"

definition tree_two_missing :: env where
  "tree_two_missing =
     \<lparr>tree = map_of
        [((''include'', ''simdjson.h''),
          [''#define SIMDJSON_AMALGAMATED'', ''#include \"simdjson/arm64.h\"'']),
         ((''include'', ''simdjson/arm64.h''),
          [''#ifndef SIMDJSON_AMALGAMATED'', ''#include \"a.h\"'', ''#include \"b.h\"'',
           ''#endif // SIMDJSON_AMALGAMATED'']),
         ((''include'', ''simdjson/generic/dependencies.h''), []),
         ((''include'', ''a.h''), []),
         ((''include'', ''b.h''), [])],
      relative_roots = [''include''], re_template = (\<lambda>s. None)\<rparr>"

definition tree_unnecessary :: env where
  "tree_unnecessary =
     \<lparr>tree = map_of
        [((''include'', ''simdjson.h''),
          [''#define SIMDJSON_AMALGAMATED'', ''#include \"simdjson/generic/dependencies.h\"'',
           ''#include \"simdjson/arm64.h\"'']),
         ((''include'', ''simdjson/arm64.h''),
          [''#ifndef SIMDJSON_AMALGAMATED'', ''#include \"a.h\"'',
           ''#endif // SIMDJSON_AMALGAMATED'']),
         ((''include'', ''simdjson/generic/dependencies.h''),
          [''#include \"a.h\"'', ''#include \"x.h\"'']),
         ((''include'', ''a.h''), []),
         ((''include'', ''x.h''), [])],
      relative_roots = [''include''], re_template = (\<lambda>s. None)\<rparr>"

definition repository_unnecessary :: repository where
  "repository_unnecessary =
     [(''simdjson/generic/dependencies.h'',
         (new_file ''include'')\<lparr>includes_list := [''a.h'', ''x.h'']\<rparr>),
      (''simdjson/arm64.h'', (new_file ''include'')\<lparr>editor_only_includes := [''a.h'']\<rparr>),
      (''a.h'', new_file ''include''),
      (''x.h'', new_file ''include'')]"

definition repository_exact :: repository where
  "repository_exact =
     [(''simdjson/generic/dependencies.h'', (new_file ''include'')\<lparr>includes_list := [''a.h'']\<rparr>),
      (''simdjson/arm64.h'', (new_file ''include'')\<lparr>editor_only_includes := [''a.h'']\<rparr>),
      (''a.h'', new_file ''include'')]"

text \<open>
  An amalgamated file that defines the flag inside its editor-only region, included with
  the flag defined; and one that undefines and defines it there.
\<close>

definition tree_flag_in_editor_only :: env where
  "tree_flag_in_editor_only =
     \<lparr>tree = map_of
        [((''include'', ''simdjson.h''),
          [''#define SIMDJSON_AMALGAMATED'', ''#include \"simdjson/arm64.h\"'']),
         ((''include'', ''simdjson/arm64.h''),
          [''#ifndef SIMDJSON_AMALGAMATED'', ''#define SIMDJSON_AMALGAMATED'',
           ''#endif // SIMDJSON_AMALGAMATED'']),
         ((''include'', ''simdjson/generic/dependencies.h''), [])],
      relative_roots = [''include''], re_template = (\<lambda>s. None)\<rparr>"

definition tree_flag_toggled_in_editor_only :: env where
  "tree_flag_toggled_in_editor_only =
     \<lparr>tree = map_of
        [((''include'', ''simdjson.h''),
          [''#define SIMDJSON_AMALGAMATED'', ''#include \"simdjson/arm64.h\"'']),
         ((''include'', ''simdjson/arm64.h''),
          [''#ifndef SIMDJSON_AMALGAMATED'', ''#undef SIMDJSON_AMALGAMATED'',
           ''#define SIMDJSON_AMALGAMATED'', ''#endif // SIMDJSON_AMALGAMATED'',
           ''int x;'']),
         ((''include'', ''simdjson/generic/dependencies.h''), [])],
      relative_roots = [''include''], re_template = (\<lambda>s. None)\<rparr>"

section \<open>Properties\<close>

subsection \<open>Sequencing\<close>

lemma and_then_Inl [simp]: "and_then (Inl e) k = Inl e"
  by (simp add: and_then_def)

lemma and_then_Inr [simp]: "and_then (Inr x) k = k x"
  by (simp add: and_then_def)

lemma and_then_eq_Inr: "and_then m k = Inr y \<longleftrightarrow> (\<exists>x. m = Inr x \<and> k x = Inr y)"
  by (cases m) simp_all

lemma and_then_eq_Inl:
  "and_then m k = Inl e \<longleftrightarrow> (m = Inl e \<or> (\<exists>x. m = Inr x \<and> k x = Inl e))"
  by (cases m) simp_all

subsection \<open>The repository\<close>

lemma find_root_error: "find_root t p rs acc = Inl e \<Longrightarrow> e = ExistsInBoth"
  by (induction rs arbitrary: acc) (auto split: if_splits)

lemma included_filename_root_error:
  "included_filename_root E p = Inl e \<Longrightarrow> e = ExistsInBoth \<or> e = NotFound p (relative_roots E)"
  by (auto simp: included_filename_root_def split: sum.splits option.splits if_splits
      dest: find_root_error)

lemma getitem_error:
  "getitem E p repo = Inl e \<Longrightarrow> e = ExistsInBoth \<or> e = NotFound p (relative_roots E)"
  by (auto simp: getitem_def split: if_splits sum.splits dest: included_filename_root_error)

lemma getitem_result:
  "getitem E p repo = Inr repo' \<Longrightarrow>
     repo' = repo \<or> (\<not> contains repo p \<and> (\<exists>r. repo' = repo @ [(p, new_file r)]))"
  by (auto simp: getitem_def split: if_splits sum.splits)

lemma contains_append [simp]: "contains (repo @ ys) p \<longleftrightarrow> contains repo p \<or> contains ys p"
  by (auto simp: contains_def map_of_append map_add_def split: option.splits)

lemma contains_single [simp]: "contains [(q, f)] p \<longleftrightarrow> p = q"
  by (auto simp: contains_def)

lemma file_of_append_old: "contains repo p \<Longrightarrow> file_of (repo @ ys) p = file_of repo p"
  by (auto simp: contains_def file_of_def map_of_append map_add_def split: option.splits)

lemma getitem_file_of:
  "getitem E q repo = Inr repo' \<Longrightarrow> contains repo p \<Longrightarrow> file_of repo' p = file_of repo p"
  by (auto dest!: getitem_result simp: file_of_append_old)

lemma getitem_contains:
  "getitem E q repo = Inr repo' \<Longrightarrow> contains repo p \<Longrightarrow> contains repo' p"
  by (auto dest!: getitem_result)

lemma free_dependency_file_result:
  "free_dependency_file E p repo = Inr (d, repo') \<Longrightarrow>
     d = free_dependency_path p \<and>
     (\<forall>x. contains repo x \<longrightarrow> contains repo' x \<and> file_of repo' x = file_of repo x)"
  by (auto simp: free_dependency_file_def getitem_file_of split: option.splits sum.splits
      dest: getitem_contains)

lemma free_dependency_file_error:
  "free_dependency_file E p repo = Inl e \<Longrightarrow>
     e = ExistsInBoth \<or> (\<exists>q. e = NotFound q (relative_roots E) \<and> free_dependency_path p = Some q)"
  by (auto simp: free_dependency_file_def split: option.splits sum.splits dest: getitem_error)

lemma is_free_dependency_result:
  "is_free_dependency E p repo = Inr (b, repo') \<Longrightarrow>
     b = (free_dependency_path p = None) \<and>
     (\<forall>x. contains repo x \<longrightarrow> contains repo' x \<and> file_of repo' x = file_of repo x)"
  by (auto simp: is_free_dependency_def split: sum.splits prod.splits
      dest!: free_dependency_file_result)

lemma is_free_dependency_error:
  "is_free_dependency E p repo = Inl e \<Longrightarrow>
     e = ExistsInBoth \<or> (\<exists>q. e = NotFound q (relative_roots E) \<and> free_dependency_path p = Some q)"
  by (auto simp: is_free_dependency_def split: sum.splits prod.splits
      dest: free_dependency_file_error)

lemma is_free_dependency_free:
  "free_dependency_path p = None \<Longrightarrow> is_free_dependency E p repo = Inr (True, repo)"
  by (simp add: is_free_dependency_def free_dependency_file_def)

lemma file_of_map_entry:
  "file_of (AList.map_entry k f repo) p =
     (if k = p \<and> contains repo p then f (file_of repo p) else file_of repo p)"
  by (auto simp: contains_def file_of_def map_of_map_entry split: option.splits)

lemma contains_map_entry [simp]: "contains (AList.map_entry k f repo) p = contains repo p"
  by (auto simp: contains_def map_of_map_entry split: option.splits)

lemma root_record_include [simp]:
  "root (file_of (record_include self incl repo) p) = root (file_of repo p)"
  by (simp add: record_include_def file_of_map_entry)

subsection \<open>The regular expressions\<close>

lemma directive_prefix: "directive kw name l \<Longrightarrow> prefix kw l"
  by (simp add: directive_def)

lemma directive_name:
  "directive kw name l \<Longrightarrow> prefix name (dropWhile is_space (drop (length kw) l))"
  by (simp add: directive_def Let_def)

lemma directive_chars:
  assumes "directive kw name l"
  shows "set l \<subseteq> set kw \<union> set name \<union> Collect is_space"
proof -
  define r where "r = drop (length kw) l"
  define r' where "r' = dropWhile is_space r"
  from assms have 1: "prefix kw l" and 2: "prefix name r'"
    and 3: "list_all is_space (drop (length name) r')"
    by (simp_all add: directive_def Let_def r_def r'_def)
  from 1 have l: "l = kw @ r" by (auto simp: prefix_def r_def)
  have r: "r = takeWhile is_space r @ r'" by (simp add: r'_def)
  from 2 have r'': "r' = name @ drop (length name) r'" by (auto simp: prefix_def)
  have "set (takeWhile is_space r) \<subseteq> Collect is_space"
    by (auto dest: set_takeWhileD)
  moreover from 3 have "set (drop (length name) r') \<subseteq> Collect is_space"
    by (auto simp: list_all_iff)
  moreover have "set l = set kw \<union> set (takeWhile is_space r) \<union> set name \<union> set (drop (length name) r')"
    using l r r'' by (metis set_append sup_assoc)
  ultimately show ?thesis by auto
qed

lemma token_here_P: "token_here pw l \<Longrightarrow> CHR ''P'' \<in> set l"
  by (auto simp: token_here_def SIMDJSON_IMPLEMENTATION_def prefix_def)

lemma search_token_P: "search_token pw l \<Longrightarrow> CHR ''P'' \<in> set l"
  by (induction l arbitrary: pw) (auto dest: token_here_P)

lemma uses_implementation_P: "uses_implementation l \<Longrightarrow> CHR ''P'' \<in> set l"
  by (auto simp: uses_implementation_def dest: search_token_P)

lemma not_space_P: "\<not> is_space (CHR ''P'')"
  by (simp add: is_space_def)

lemma define_amalgamated_no_P: "define_amalgamated l \<Longrightarrow> CHR ''P'' \<notin> set l"
  by (auto simp: define_amalgamated_def SIMDJSON_AMALGAMATED_def not_space_P dest!: directive_chars)

lemma undef_amalgamated_no_P: "undef_amalgamated l \<Longrightarrow> CHR ''P'' \<notin> set l"
  by (auto simp: undef_amalgamated_def SIMDJSON_AMALGAMATED_def not_space_P dest!: directive_chars)

lemma names_differ: "prefix SIMDJSON_AMALGAMATED r \<Longrightarrow> \<not> prefix SIMDJSON_IMPLEMENTATION r"
  by (auto simp: prefix_def SIMDJSON_AMALGAMATED_def SIMDJSON_IMPLEMENTATION_def)

lemma length_define: "length ''#define'' = 7"
  by simp

lemma length_undef: "length ''#undef'' = 6"
  by simp

lemma define_implementation_name:
  "define_implementation l = Some v \<Longrightarrow>
     prefix ''#define'' l \<and> prefix SIMDJSON_IMPLEMENTATION (dropWhile is_space (drop 7 l))"
  by (simp add: define_implementation_def Let_def split: if_splits)

lemma define_amalgamated_name:
  assumes "define_amalgamated l"
  shows "prefix ''#define'' l" "prefix SIMDJSON_AMALGAMATED (dropWhile is_space (drop 7 l))"
proof -
  from assms show "prefix ''#define'' l"
    unfolding define_amalgamated_def by (rule directive_prefix)
  from assms have "prefix SIMDJSON_AMALGAMATED (dropWhile is_space (drop (length ''#define'') l))"
    unfolding define_amalgamated_def by (rule directive_name)
  then show "prefix SIMDJSON_AMALGAMATED (dropWhile is_space (drop 7 l))"
    unfolding length_define .
qed

lemma undef_amalgamated_name:
  assumes "undef_amalgamated l"
  shows "prefix ''#undef'' l" "prefix SIMDJSON_AMALGAMATED (dropWhile is_space (drop 6 l))"
proof -
  from assms show "prefix ''#undef'' l"
    unfolding undef_amalgamated_def by (rule directive_prefix)
  from assms have "prefix SIMDJSON_AMALGAMATED (dropWhile is_space (drop (length ''#undef'') l))"
    unfolding undef_amalgamated_def by (rule directive_name)
  then show "prefix SIMDJSON_AMALGAMATED (dropWhile is_space (drop 6 l))"
    unfolding length_undef .
qed

lemma undef_implementation_name:
  assumes "undef_implementation l"
  shows "prefix ''#undef'' l" "prefix SIMDJSON_IMPLEMENTATION (dropWhile is_space (drop 6 l))"
proof -
  from assms show "prefix ''#undef'' l"
    unfolding undef_implementation_def by (rule directive_prefix)
  from assms have "prefix SIMDJSON_IMPLEMENTATION (dropWhile is_space (drop (length ''#undef'') l))"
    unfolding undef_implementation_def by (rule directive_name)
  then show "prefix SIMDJSON_IMPLEMENTATION (dropWhile is_space (drop 6 l))"
    unfolding length_undef .
qed

lemma ifndef_amalgamated_prefix: "ifndef_amalgamated l \<Longrightarrow> prefix ''#ifndef'' l"
  unfolding ifndef_amalgamated_def by (rule directive_prefix)

lemma endif_amalgamated_prefix: "endif_amalgamated l \<Longrightarrow> prefix ''#endif'' l"
  by (simp add: endif_amalgamated_def)

lemma included_prefix: "included l = Some p \<Longrightarrow> prefix ''#include'' l"
  by (auto simp: included_def prefix_def split: if_splits)

lemma keywords_differ:
  "prefix ''#define'' l \<Longrightarrow> \<not> prefix ''#ifndef'' l"
  "prefix ''#define'' l \<Longrightarrow> \<not> prefix ''#endif'' l"
  "prefix ''#define'' l \<Longrightarrow> \<not> prefix ''#include'' l"
  "prefix ''#define'' l \<Longrightarrow> \<not> prefix ''#undef'' l"
  "prefix ''#undef'' l \<Longrightarrow> \<not> prefix ''#ifndef'' l"
  "prefix ''#undef'' l \<Longrightarrow> \<not> prefix ''#endif'' l"
  "prefix ''#undef'' l \<Longrightarrow> \<not> prefix ''#include'' l"
  by (auto simp: prefix_def)

lemma define_amalgamated_exclusive:
  assumes "define_amalgamated l"
  shows "\<not> ifndef_amalgamated l" "\<not> endif_amalgamated l" "included l = None"
    "define_implementation l = None" "\<not> undef_implementation l" "\<not> uses_implementation l"
    "\<not> undef_amalgamated l"
proof -
  note p = define_amalgamated_name [OF assms]
  from p(1) show "\<not> ifndef_amalgamated l"
    using ifndef_amalgamated_prefix keywords_differ(1) by blast
  from p(1) show "\<not> endif_amalgamated l"
    using endif_amalgamated_prefix keywords_differ(2) by blast
  from p(1) show "included l = None"
    using included_prefix keywords_differ(3) by (cases "included l") blast+
  from p(2) show "define_implementation l = None"
    using define_implementation_name names_differ by (cases "define_implementation l") blast+
  from p(1) show "\<not> undef_implementation l"
    using undef_implementation_name(1) keywords_differ(4) by blast
  from p(1) show "\<not> undef_amalgamated l"
    using undef_amalgamated_name(1) keywords_differ(4) by blast
  from assms show "\<not> uses_implementation l"
    using define_amalgamated_no_P uses_implementation_P by blast
qed

lemma undef_amalgamated_exclusive:
  assumes "undef_amalgamated l"
  shows "\<not> ifndef_amalgamated l" "\<not> endif_amalgamated l" "included l = None"
    "define_implementation l = None" "\<not> undef_implementation l" "\<not> uses_implementation l"
    "\<not> define_amalgamated l"
proof -
  note p = undef_amalgamated_name [OF assms]
  from p(1) show "\<not> ifndef_amalgamated l"
    using ifndef_amalgamated_prefix keywords_differ(5) by blast
  from p(1) show "\<not> endif_amalgamated l"
    using endif_amalgamated_prefix keywords_differ(6) by blast
  from p(1) show "included l = None"
    using included_prefix keywords_differ(7) by (cases "included l") blast+
  from p(1) show "define_implementation l = None"
    using define_implementation_name keywords_differ(4) by (cases "define_implementation l") blast+
  from p(2) show "\<not> undef_implementation l"
    using undef_implementation_name(2) names_differ by blast
  from p(1) show "\<not> define_amalgamated l"
    using define_amalgamated_name(1) keywords_differ(4) by blast
  from assms show "\<not> uses_implementation l"
    using undef_amalgamated_no_P uses_implementation_P by blast
qed

subsection \<open>The substitution replaces every occurrence\<close>

declare split_words.simps(2) [simp del]

lemma name_is_word: "list_all is_word SIMDJSON_IMPLEMENTATION"
  by (simp add: SIMDJSON_IMPLEMENTATION_def is_word_def)

lemma name_not_empty: "SIMDJSON_IMPLEMENTATION \<noteq> []"
  by (simp add: SIMDJSON_IMPLEMENTATION_def)

lemma takeWhile_name: "takeWhile is_word (SIMDJSON_IMPLEMENTATION @ r) = SIMDJSON_IMPLEMENTATION @ takeWhile is_word r"
  using name_is_word by (simp add: takeWhile_append2 list_all_iff)

lemma dropWhile_name: "dropWhile is_word (SIMDJSON_IMPLEMENTATION @ r) = dropWhile is_word r"
  using name_is_word by (simp add: dropWhile_append2 list_all_iff)

lemma dropWhile_head: "dropWhile P xs = y # ys \<Longrightarrow> \<not> P y"
  by (induction xs) (auto split: if_splits)

lemma takeWhile_dropWhile_Nil: "takeWhile P (dropWhile P xs) = []"
  by (induction xs) auto

lemma token_here_iff:
  "token_here False l \<longleftrightarrow> takeWhile is_word l = SIMDJSON_IMPLEMENTATION"
proof
  assume "token_here False l"
  then obtain r where l: "l = SIMDJSON_IMPLEMENTATION @ r" and r: "r = [] \<or> \<not> is_word (hd r)"
    by (auto simp: token_here_def prefix_def split: list.splits)
  from r have "takeWhile is_word r = []" by (cases r) auto
  with l show "takeWhile is_word l = SIMDJSON_IMPLEMENTATION" by (simp add: takeWhile_name)
next
  assume t: "takeWhile is_word l = SIMDJSON_IMPLEMENTATION"
  have l: "l = SIMDJSON_IMPLEMENTATION @ dropWhile is_word l"
    using takeWhile_dropWhile_id [of is_word l] t by simp
  then have d: "drop (length SIMDJSON_IMPLEMENTATION) l = dropWhile is_word l"
    by (metis append_eq_conv_conj)
  have "case dropWhile is_word l of [] \<Rightarrow> True | c # _ \<Rightarrow> \<not> is_word c"
    by (auto split: list.splits dest: dropWhile_head)
  with l d show "token_here False l"
    by (auto simp: token_here_def prefix_def)
qed

lemma not_token_here_True [simp]: "\<not> token_here True l"
  by (simp add: token_here_def)

lemma token_here_word: "token_here pw (c # cs) \<Longrightarrow> is_word c"
  by (auto simp: token_here_def prefix_def SIMDJSON_IMPLEMENTATION_def is_word_def)

lemma sub_token_True:
  "sub_token x True l = takeWhile is_word l @ sub_token x False (dropWhile is_word l)"
proof (induction l)
  case Nil
  show ?case by simp
next
  case (Cons c cs)
  show ?case
  proof (cases "is_word c")
    case True
    with Cons show ?thesis by simp
  next
    case False
    then have "\<not> token_here False (c # cs)" using token_here_word by blast
    with False show ?thesis by simp
  qed
qed

lemma drop_name_tail:
  assumes "takeWhile is_word (c # cs) = SIMDJSON_IMPLEMENTATION"
  shows "drop (length SIMDJSON_IMPLEMENTATION - 1) cs = dropWhile is_word (c # cs)"
proof -
  have l: "c # cs = SIMDJSON_IMPLEMENTATION @ dropWhile is_word (c # cs)"
    using takeWhile_dropWhile_id [of is_word "c # cs"] assms by simp
  then have "drop (length SIMDJSON_IMPLEMENTATION) (c # cs) = dropWhile is_word (c # cs)"
    by (metis append_eq_conv_conj)
  moreover have "length SIMDJSON_IMPLEMENTATION = 23"
    by (simp add: SIMDJSON_IMPLEMENTATION_def)
  then have "drop (length SIMDJSON_IMPLEMENTATION) (c # cs) = drop (length SIMDJSON_IMPLEMENTATION - 1) cs"
    by simp
  ultimately show ?thesis by simp
qed

lemma sub_token_replace: "sub_token x False l = replace_placeholder x l"
proof (induction l rule: split_words.induct)
  case 1
  show ?case by (simp add: replace_placeholder_def)
next
  case (2 c cs)
  show ?case
  proof (cases "is_word c")
    case False
    then have n: "\<not> token_here False (c # cs)" using token_here_word by blast
    have "[c] \<noteq> SIMDJSON_IMPLEMENTATION" by (simp add: SIMDJSON_IMPLEMENTATION_def)
    with False n 2 show ?thesis
      by (simp add: replace_placeholder_def split_words.simps(2))
  next
    case True
    then have tw: "takeWhile is_word (c # cs) = c # takeWhile is_word cs"
      and dw: "dropWhile is_word (c # cs) = dropWhile is_word cs" by simp_all
    from True 2 have IH: "sub_token x False (dropWhile is_word cs) = replace_placeholder x (dropWhile is_word cs)"
      by simp
    show ?thesis
    proof (cases "token_here False (c # cs)")
      case t: True
      then have eq: "c # takeWhile is_word cs = SIMDJSON_IMPLEMENTATION"
        using token_here_iff tw by simp
      from t have d: "drop (length SIMDJSON_IMPLEMENTATION - 1) cs = dropWhile is_word cs"
        using drop_name_tail [of c cs] token_here_iff dw by simp
      have "takeWhile is_word (dropWhile is_word cs) = []"
        by (rule takeWhile_dropWhile_Nil)
      then have "sub_token x True (dropWhile is_word cs) = sub_token x False (dropWhile is_word cs)"
        by (simp add: sub_token_True)
      with t d IH eq True show ?thesis
        by (simp add: replace_placeholder_def split_words.simps(2))
    next
      case f: False
      then have ne: "c # takeWhile is_word cs \<noteq> SIMDJSON_IMPLEMENTATION"
        using token_here_iff tw by simp
      from f True have "sub_token x False (c # cs) = c # sub_token x True cs" by simp
      also have "\<dots> = c # takeWhile is_word cs @ sub_token x False (dropWhile is_word cs)"
        by (simp add: sub_token_True)
      finally show ?thesis using IH ne True
        by (simp add: replace_placeholder_def split_words.simps(2))
    qed
  qed
qed

lemma search_token_True: "search_token True l = search_token False (dropWhile is_word l)"
proof (induction l)
  case Nil
  show ?case by simp
next
  case (Cons c cs)
  show ?case
  proof (cases "is_word c")
    case True
    with Cons show ?thesis by simp
  next
    case False
    then have "\<not> token_here False (c # cs)" using token_here_word by blast
    with False show ?thesis by simp
  qed
qed

lemma uses_implementation_iff:
  "uses_implementation l \<longleftrightarrow> SIMDJSON_IMPLEMENTATION \<in> set (split_words l)"
  unfolding uses_implementation_def
proof (induction l rule: split_words.induct)
  case 1
  show ?case by simp
next
  case (2 c cs)
  show ?case
  proof (cases "is_word c")
    case False
    then have n: "\<not> token_here False (c # cs)" using token_here_word by blast
    have "[c] \<noteq> SIMDJSON_IMPLEMENTATION" by (simp add: SIMDJSON_IMPLEMENTATION_def)
    with False n 2 show ?thesis
      by (auto simp: split_words.simps(2))
  next
    case True
    then have tw: "takeWhile is_word (c # cs) = c # takeWhile is_word cs" by simp
    from True 2 have IH: "search_token False (dropWhile is_word cs) \<longleftrightarrow>
        SIMDJSON_IMPLEMENTATION \<in> set (split_words (dropWhile is_word cs))"
      by simp
    have "token_here False (c # cs) \<longleftrightarrow> c # takeWhile is_word cs = SIMDJSON_IMPLEMENTATION"
      using token_here_iff tw by simp
    with IH True show ?thesis
      by (auto simp: split_words.simps(2) search_token_True)
  qed
qed

subsection \<open>Lines of a file\<close>

declare write_file.simps(2) [simp del] write_lines.simps(2) [simp del]
  maybe_write_file.simps [simp del]

lemma is_amalgamated_result:
  "is_amalgamated E p repo = Inr (b, repo') \<Longrightarrow>
     b = (free_dependency_path p \<noteq> None) \<and>
     (\<forall>x. contains repo x \<longrightarrow> contains repo' x \<and> file_of repo' x = file_of repo x)"
  by (auto simp: is_amalgamated_def split: sum.splits prod.splits dest!: is_free_dependency_result)

lemma is_amalgamated_free:
  "free_dependency_path p = None \<Longrightarrow> is_amalgamated E p repo = Inr (False, repo)"
  by (simp add: is_amalgamated_def is_free_dependency_free)

lemma is_amalgamated_error:
  "is_amalgamated E p repo = Inl e \<Longrightarrow>
     e = ExistsInBoth \<or> (\<exists>q. e = NotFound q (relative_roots E) \<and> free_dependency_path p = Some q)"
  by (auto simp: is_amalgamated_def split: sum.splits prod.splits dest: is_free_dependency_error)

lemma write_out_fields [simp]:
  "repository (write_out l a) = repository a"
  "builtin_implementation (write_out l a) = builtin_implementation a"
  "implementation (write_out l a) = implementation a"
  "found_includes (write_out l a) = found_includes a"
  "found_includes_per_amalgamation (write_out l a) = found_includes_per_amalgamation a"
  "found_generic_includes (write_out l a) = found_generic_includes a"
  "amalgamated_defined (write_out l a) = amalgamated_defined a"
  "editor_only_region (write_out l a) = editor_only_region a"
  "include_stack (write_out l a) = include_stack a"
  "fid (write_out l a) = fid a @ [l]"
  by (simp_all add: write_out_def)

lemma amalgamated_line_define:
  assumes "define_amalgamated line"
  shows "amalgamated_line E file line a = Inr a2 \<Longrightarrow>
           free_dependency_path file = None \<and> \<not> amalgamated_defined a \<and> amalgamated_defined a2 \<and>
           found_includes_per_amalgamation a2 = {}"
    and "amalgamated_defined a \<Longrightarrow> \<exists>e. amalgamated_line E file line a = Inl e"
    and "amalgamated_defined a \<Longrightarrow> free_dependency_path file = None \<Longrightarrow>
           amalgamated_line E file line a = Inl (Redefines file)"
    and "is_amalgamated E file (repository a) = Inr (True, repo) \<Longrightarrow>
           amalgamated_line E file line a = Inl DefinedInAmalgamated"
  using assms
  by (auto simp: amalgamated_line_def is_amalgamated_free split: sum.splits prod.splits if_splits
      dest!: is_amalgamated_result)

lemma amalgamated_line_undef:
  assumes "undef_amalgamated line"
  shows "amalgamated_line E file line a = Inr a2 \<Longrightarrow>
           free_dependency_path file = None \<and> amalgamated_defined a \<and> \<not> amalgamated_defined a2"
    and "\<not> amalgamated_defined a \<Longrightarrow> \<exists>e. amalgamated_line E file line a = Inl e"
    and "\<not> amalgamated_defined a \<Longrightarrow> free_dependency_path file = None \<Longrightarrow>
           amalgamated_line E file line a = Inl (UndefinesWithoutDefine file)"
    and "is_amalgamated E file (repository a) = Inr (True, repo) \<Longrightarrow>
           amalgamated_line E file line a = Inl UndefinedInAmalgamated"
  using assms undef_amalgamated_exclusive(7) [OF assms]
  by (auto simp: amalgamated_line_def is_amalgamated_free split: sum.splits prod.splits if_splits
      dest!: is_amalgamated_result)

text \<open>A line that is none of the directives before the amalgamated flag: what the loop does.\<close>

lemma write_lines_other:
  assumes "\<not> editor_only_region a" "\<not> ifndef_amalgamated line" "\<not> endif_amalgamated line"
    "included line = None"
  shows "write_lines n E file (line # lines) a =
     and_then (other_line E file line a) (\<lambda>a2. write_lines n E file lines a2)"
  using assms by (simp add: write_lines.simps(2) begin_editor_only_def)

lemma other_line_flag:
  assumes "define_implementation line = None" "\<not> undef_implementation line"
    "\<not> uses_implementation line"
  shows "other_line E file line a =
     and_then (amalgamated_line E file line a) (\<lambda>a2. Inr (write_out line a2))"
  using assms by (simp add: other_line_def implementation_line_def and_then_def split: sum.splits)

text \<open>A flag directive outside the editor-only region: the loop hands it to \<open>amalgamated_line\<close>.\<close>

lemma write_lines_flag:
  assumes "\<not> editor_only_region a" "define_amalgamated line \<or> undef_amalgamated line"
  shows "write_lines n E file (line # lines) a =
     and_then (amalgamated_line E file line a)
       (\<lambda>a2. write_lines n E file lines (write_out line a2))"
proof -
  from assms(2) have x: "\<not> ifndef_amalgamated line" "\<not> endif_amalgamated line"
    "included line = None" "define_implementation line = None" "\<not> undef_implementation line"
    "\<not> uses_implementation line"
    using define_amalgamated_exclusive undef_amalgamated_exclusive by blast+
  have "write_lines n E file (line # lines) a =
     and_then (other_line E file line a) (\<lambda>a2. write_lines n E file lines a2)"
    using assms(1) x(1-3) by (rule write_lines_other)
  also have "other_line E file line a =
     and_then (amalgamated_line E file line a) (\<lambda>a2. Inr (write_out line a2))"
    using x(4-6) by (rule other_line_flag)
  finally show ?thesis
    by (cases "amalgamated_line E file line a") simp_all
qed

subsection \<open>What the writer keeps\<close>

lemma case_Inr_elim:
  "(case m of Inl e \<Rightarrow> Inl e | Inr x \<Rightarrow> k x) = Inr y \<Longrightarrow>
     (\<And>x. m = Inr x \<Longrightarrow> k x = Inr y \<Longrightarrow> R) \<Longrightarrow> R"
  by (cases m) auto

lemma file_to_str_seen:
  "file_to_str E f a = Inr (s, a') \<Longrightarrow>
     found_includes a' = found_includes a \<and> found_generic_includes a' = found_generic_includes a \<and>
     include_stack a' = include_stack a \<and> implementation a' = implementation a \<and>
     fid a' = fid a \<and> editor_only_region a' = editor_only_region a \<and>
     builtin_implementation a' = builtin_implementation a \<and>
     found_includes_per_amalgamation a' = found_includes_per_amalgamation a \<and>
     amalgamated_defined a' = amalgamated_defined a"
  by (auto simp: file_to_str_def split: if_splits elim!: case_Inr_elim)

lemma begin_file_seen:
  "begin_file E f a = Inr a' \<Longrightarrow>
     found_includes a' = found_includes a \<and> found_generic_includes a' = found_generic_includes a \<and>
     include_stack a' = include_stack a @ [f]"
  by (auto simp: begin_file_def Let_def file_equals_str_def split: if_splits
      elim!: case_Inr_elim dest!: file_to_str_seen)

lemma end_file_seen:
  "end_file E f a = Inr a' \<Longrightarrow>
     found_includes a' = found_includes a \<and> found_generic_includes a' = found_generic_includes a \<and>
     include_stack a' = butlast (include_stack a)"
  by (auto simp: end_file_def Let_def split: if_splits
      elim!: case_Inr_elim dest!: file_to_str_seen)

lemma begin_editor_only_seen:
  "begin_editor_only E f l a = Inr a' \<Longrightarrow>
     found_includes a' = found_includes a \<and> found_generic_includes a' = found_generic_includes a \<and>
     include_stack a' = include_stack a"
  by (auto simp: begin_editor_only_def split: if_splits elim!: case_Inr_elim)

lemma editor_only_line_seen:
  "editor_only_line E f l a = Inr a' \<Longrightarrow>
     found_includes a' = found_includes a \<and> found_generic_includes a' = found_generic_includes a \<and>
     include_stack a' = include_stack a"
  by (auto simp: editor_only_line_def Let_def split: if_splits option.splits elim!: case_Inr_elim)

lemma include_line_seen:
  "include_line E f p a = Inr a' \<Longrightarrow>
     found_includes a' = found_includes a \<and> found_generic_includes a' = found_generic_includes a \<and>
     include_stack a' = include_stack a"
  by (auto simp: include_line_def elim!: case_Inr_elim)

lemma implementation_line_seen:
  "implementation_line E f l a = Inr (l', a') \<Longrightarrow>
     found_includes a' = found_includes a \<and> found_generic_includes a' = found_generic_includes a \<and>
     include_stack a' = include_stack a"
  by (auto simp: implementation_line_def Let_def split: if_splits option.splits
      elim!: case_Inr_elim)

lemma amalgamated_line_seen:
  "amalgamated_line E f l a = Inr a' \<Longrightarrow>
     found_includes a' = found_includes a \<and> found_generic_includes a' = found_generic_includes a \<and>
     include_stack a' = include_stack a"
  by (auto simp: amalgamated_line_def split: if_splits elim!: case_Inr_elim)

lemma other_line_seen:
  "other_line E f l a = Inr a' \<Longrightarrow>
     found_includes a' = found_includes a \<and> found_generic_includes a' = found_generic_includes a \<and>
     include_stack a' = include_stack a"
  by (auto simp: other_line_def elim!: case_Inr_elim
      dest!: implementation_line_seen amalgamated_line_seen)

lemma seen_before_seen:
  "seen_before E f i a = Inr (skip, a') \<Longrightarrow>
     found_includes a \<subseteq> found_includes a' \<and>
     prefix (found_generic_includes a) (found_generic_includes a') \<and>
     (distinct (found_generic_includes a) \<longrightarrow> distinct (found_generic_includes a')) \<and>
     include_stack a' = include_stack a"
  by (auto simp: seen_before_def Let_def split: if_splits elim!: case_Inr_elim)

lemma seen_grows_refl [simp]: "seen_grows a a"
  by (simp add: seen_grows_def)

lemma seen_grows_trans: "seen_grows a b \<Longrightarrow> seen_grows b c \<Longrightarrow> seen_grows a c"
  by (auto simp: seen_grows_def intro: prefix_order.trans)

lemma seen_grows_eq:
  "found_includes a' = found_includes a \<and> found_generic_includes a' = found_generic_includes a \<and>
     include_stack a' = include_stack a \<Longrightarrow> seen_grows a a'"
  by (simp add: seen_grows_def)

lemma seen_grows_write_out: "seen_grows a b \<Longrightarrow> seen_grows a (write_out l b)"
  by (simp add: seen_grows_def)

text \<open>The three functions, unfolded once, for a run that succeeds.\<close>

lemma write_file_Inr:
  assumes "write_file (Suc n) E f a = Inr a'"
  obtains a1 ls a2 where "begin_file E f a = Inr a1"
    and "tree E (root (file_of (repository a1) f), f) = Some ls"
    and "write_lines n E f ls a1 = Inr a2" and "end_file E f a2 = Inr a'"
  using assms by (auto simp: write_file.simps(2) and_then_eq_Inr split: option.splits)

lemma write_lines_Inr:
  assumes "write_lines n E f (l # ls) a = Inr a'"
  obtains (editor_only) a1 a2 where "begin_editor_only E f l a = Inr a1" and "editor_only_region a1"
    and "editor_only_line E f l a1 = Inr a2" and "write_lines n E f ls a2 = Inr a'"
  | (included) a1 p a2 a3 where "begin_editor_only E f l a = Inr a1" and "\<not> editor_only_region a1"
    and "\<not> endif_amalgamated l" and "included l = Some p"
    and "include_line E f p a1 = Inr a2" and "maybe_write_file n E p (Some f) l a2 = Inr a3"
    and "write_lines n E f ls a3 = Inr a'"
  | (other) a1 a2 where "begin_editor_only E f l a = Inr a1" and "\<not> editor_only_region a1"
    and "\<not> endif_amalgamated l" and "included l = None"
    and "other_line E f l a1 = Inr a2" and "write_lines n E f ls a2 = Inr a'"
proof -
  from assms obtain a1 where b: "begin_editor_only E f l a = Inr a1"
    and r: "(if editor_only_region a1 then
         and_then (editor_only_line E f l a1) (\<lambda>a2. write_lines n E f ls a2)
       else if endif_amalgamated l then Inl (EndifWithoutIfndef f)
       else
         (case included l of
            Some p \<Rightarrow>
              and_then (include_line E f p a1) (\<lambda>a2.
                and_then (maybe_write_file n E p (Some f) l a2) (\<lambda>a3.
                  write_lines n E f ls a3))
          | None \<Rightarrow>
              and_then (other_line E f l a1) (\<lambda>a2. write_lines n E f ls a2))) = Inr a'"
    by (auto simp: write_lines.simps(2) and_then_eq_Inr)
  show thesis
  proof (cases "editor_only_region a1")
    case True
    with r obtain a2 where "editor_only_line E f l a1 = Inr a2" "write_lines n E f ls a2 = Inr a'"
      by (auto simp: and_then_eq_Inr)
    with b True show thesis by (rule editor_only)
  next
    case False
    with r have ne: "\<not> endif_amalgamated l"
      by (auto split: if_splits)
    show thesis
    proof (cases "included l")
      case None
      with r False ne obtain a2 where "other_line E f l a1 = Inr a2"
        "write_lines n E f ls a2 = Inr a'"
        by (auto simp: and_then_eq_Inr)
      with b False ne None show thesis by (rule other)
    next
      case (Some p)
      with r False ne obtain a2 a3 where "include_line E f p a1 = Inr a2"
        "maybe_write_file n E p (Some f) l a2 = Inr a3" "write_lines n E f ls a3 = Inr a'"
        by (auto simp: and_then_eq_Inr)
      with b False ne Some show thesis by (rule included)
    qed
  qed
qed

lemma maybe_write_file_Inr:
  assumes "maybe_write_file n E f i l a = Inr a'"
  obtains (skipped) a1 where "seen_before E f i a = Inr (True, a1)"
    and "a' = write_out (''/* skipped duplicate '' @ l @ '' */'') a1"
  | (written) a1 s a2 where "seen_before E f i a = Inr (False, a1)"
    and "file_to_str E f a1 = Inr (s, a2)"
    and "write_file n E f (write_out (''/* including '' @ s @ '': '' @ l @ '' */'') a2) = Inr a'"
  using assms
  by (auto simp: maybe_write_file.simps and_then_eq_Inr split: if_splits)

lemma writer_seen_grows:
  shows "write_file n E f a = Inr a' \<Longrightarrow> seen_grows a a'"
    and "write_lines n E f ls a = Inr a' \<Longrightarrow> seen_grows a a'"
    and "maybe_write_file n E f i l a = Inr a' \<Longrightarrow> seen_grows a a'"
proof (induction n E f a and n E f ls a and n E f i l a arbitrary: a' and a' and a'
    rule: write_file_write_lines_maybe_write_file.induct)
  case (1 E f a)
  then show ?case by simp
next
  case (2 n E f a)
  from "2.prems" obtain a1 ls a2 where
    b: "begin_file E f a = Inr a1" and
    t: "tree E (root (file_of (repository a1) f), f) = Some ls" and
    w: "write_lines n E f ls a1 = Inr a2" and
    e: "end_file E f a2 = Inr a'"
    by (rule write_file_Inr)
  from "2.IH" [OF t w] have "seen_grows a1 a2" .
  with b e show ?case
    by (auto simp: seen_grows_def dest!: begin_file_seen end_file_seen)
next
  case (3 n E f a)
  then show ?case by simp
next
  case (4 n E f l ls a)
  from "4.prems" show ?case
  proof (cases rule: write_lines_Inr)
    case (editor_only a1 a2)
    from editor_only(1,3) have "seen_grows a a2"
      by (auto intro!: seen_grows_eq dest!: begin_editor_only_seen editor_only_line_seen)
    with "4.IH"(1) [OF editor_only(2,4)] show ?thesis
      by (blast intro: seen_grows_trans)
  next
    case (included a1 p a2 a3)
    from included(1,5) have "seen_grows a a2"
      by (auto intro!: seen_grows_eq dest!: begin_editor_only_seen include_line_seen)
    moreover from "4.IH"(3) [OF included(2,3,4,6)] have "seen_grows a2 a3" .
    moreover from "4.IH"(4) [OF included(2,3,4,7)] have "seen_grows a3 a'" .
    ultimately show ?thesis
      by (blast intro: seen_grows_trans)
  next
    case (other a1 a2)
    from other(1,5) have "seen_grows a a2"
      by (auto intro!: seen_grows_eq dest!: begin_editor_only_seen other_line_seen)
    with "4.IH"(2) [OF other(2,3,4,6)] show ?thesis
      by (blast intro: seen_grows_trans)
  qed
next
  case (5 n E f i l a)
  from "5.prems" show ?case
  proof (cases rule: maybe_write_file_Inr)
    case (skipped a1)
    then show ?thesis
      by (auto simp: seen_grows_def dest!: seen_before_seen)
  next
    case (written a1 s a2)
    from written(1,2)
    have "seen_grows a (write_out (''/* including '' @ s @ '': '' @ l @ '' */'') a2)"
      by (auto simp: seen_grows_def dest!: seen_before_seen file_to_str_seen)
    with "5.IH" [OF _ written(3)] show ?thesis
      by (blast intro: seen_grows_trans)
  qed
qed

subsection \<open>The seen sets\<close>

lemma seen_before_free:
  assumes "free_dependency_path f = None"
  shows "seen_before E f i a =
     (if f \<in> found_includes a then Inr (True, a)
      else Inr (False, a\<lparr>found_includes := insert f (found_includes a)\<rparr>))"
  using assms by (simp add: seen_before_def is_amalgamated_free)

lemma seen_before_amalgamated:
  assumes "is_amalgamated E f (repository a) = Inr (True, repo)" "\<not> is_generic f"
  shows "seen_before E f i a =
     Inr (False, a\<lparr>repository := repo,
        found_includes_per_amalgamation := insert f (found_includes_per_amalgamation a)\<rparr>)"
  using assms by (simp add: seen_before_def)

lemma seen_before_generic:
  assumes "is_amalgamated E f (repository a) = Inr (True, repo)" "is_generic f"
  shows "seen_before E f i a =
     (if (f, implementation a) \<in> set (found_generic_includes a)
      then Inl (GenericIncludedTwice f i (implementation a))
      else if \<not> truthy (implementation a) then Inl (NoImplementation f)
      else Inr (False, a\<lparr>repository := repo,
        found_generic_includes := found_generic_includes a @ [(f, implementation a)]\<rparr>))"
  using assms by (simp add: seen_before_def)

lemma getitem_idem: "getitem E q repo = Inr repo' \<Longrightarrow> getitem E q repo' = Inr repo'"
  by (auto simp: getitem_def split: if_splits sum.splits)

lemma is_amalgamated_idem:
  "is_amalgamated E f repo = Inr (b, repo') \<Longrightarrow> is_amalgamated E f repo' = Inr (b, repo')"
  by (auto simp: is_amalgamated_def is_free_dependency_def free_dependency_file_def
      split: option.splits elim!: case_Inr_elim dest: getitem_idem)

lemma begin_file_cyclic:
  "f \<in> set (include_stack a) \<Longrightarrow> begin_file E f a = Inl (CyclicInclude (include_stack a) f)"
  by (simp add: begin_file_def)

subsection \<open>The completeness check\<close>

lemma free_dependency_file_known:
  "aggregator_known repo p \<Longrightarrow> free_dependency_file E p repo = Inr (free_dependency_path p, repo)"
  by (auto simp: aggregator_known_def free_dependency_file_def getitem_def split: option.splits)

lemma is_free_dependency_known:
  "aggregator_known repo p \<Longrightarrow>
     is_free_dependency E p repo = Inr (free_dependency_path p = None, repo)"
  by (simp add: is_free_dependency_def free_dependency_file_known)

lemma validate_editor_only_known:
  assumes "list_all (aggregator_known repo) is"
  shows "validate_editor_only E self file is (repo, extra) =
     (case find (\<lambda>i. free_dependency_path i = None \<and> i \<notin> set (includes_list (file_of repo self))) is of
        Some i \<Rightarrow> Inl (NotIncludedFrom file i self)
      | None \<Rightarrow> Inr (repo, extra - set (filter (\<lambda>i. free_dependency_path i = None) is)))"
  using assms
proof (induction "is" arbitrary: extra)
  case Nil
  show ?case by simp
next
  case (Cons i "is")
  from Cons.prems have k: "aggregator_known repo i" and ks: "list_all (aggregator_known repo) is"
    by simp_all
  note IH = Cons.IH [OF ks]
  show ?case
  proof (cases "free_dependency_path i")
    case (Some q)
    with IH [of extra] show ?thesis
      by (simp add: is_free_dependency_known [OF k] cong: option.case_cong)
  next
    case None
    show ?thesis
    proof (cases "i \<in> set (includes_list (file_of repo self))")
      case False
      with None show ?thesis by (simp add: is_free_dependency_known [OF k])
    next
      case True
      have step: "validate_editor_only E self file (i # is) (repo, extra)
          = validate_editor_only E self file is (repo, extra - {i})"
        using None True by (simp add: is_free_dependency_known [OF k])
      have fnd: "find (\<lambda>i. free_dependency_path i = None \<and>
            i \<notin> set (includes_list (file_of repo self))) (i # is)
          = find (\<lambda>i. free_dependency_path i = None \<and>
            i \<notin> set (includes_list (file_of repo self))) is"
        using True by simp
      have st: "extra - {i} - set (filter (\<lambda>i. free_dependency_path i = None) is)
          = extra - set (filter (\<lambda>i. free_dependency_path i = None) (i # is))"
        using None by auto
      show ?thesis
        unfolding step fnd IH [of "extra - {i}"] st ..
    qed
  qed
qed

lemma find_map_Pair_filter:
  "find (\<lambda>(f, i). Q i) (map (Pair fl) (filter P xs))
     = map_option (Pair fl) (find (\<lambda>i. P i \<and> Q i) xs)"
  by (induction xs) auto

lemma find_append_first: "find P xs = Some x \<Longrightarrow> find P (xs @ ys) = Some x"
  by (induction xs) (auto split: if_splits)

lemma find_append_second: "find P xs = None \<Longrightarrow> find P (xs @ ys) = find P ys"
  by (induction xs) (auto split: if_splits)

text \<open>The pairs that the loop over the files \<open>fls\<close> checks, in its order.\<close>

lemma validate_files_known:
  assumes "list_all (\<lambda>fl. aggregator_known repo fl \<and>
              list_all (aggregator_known repo) (editor_only_includes (file_of repo fl))) fls"
  shows "validate_files E self (length repo) fls (repo, extra) =
     (case find (\<lambda>(f, i). i \<notin> set (includes_list (file_of repo self)))
             (concat (map (free_editor_only_includes repo)
                (filter (\<lambda>fl. free_dependency_path fl = Some self) fls))) of
        Some (f, i) \<Rightarrow> Inl (NotIncludedFrom f i self)
      | None \<Rightarrow> Inr (repo, extra - snd ` set (concat (map (free_editor_only_includes repo)
                (filter (\<lambda>fl. free_dependency_path fl = Some self) fls)))))"
  using assms
proof (induction fls arbitrary: extra)
  case Nil
  show ?case by simp
next
  case (Cons fl fls)
  from Cons.prems have k: "aggregator_known repo fl"
    and ke: "list_all (aggregator_known repo) (editor_only_includes (file_of repo fl))"
    and ks: "list_all (\<lambda>fl. aggregator_known repo fl \<and>
              list_all (aggregator_known repo) (editor_only_includes (file_of repo fl))) fls"
    by simp_all
  note IH = Cons.IH [OF ks]
  let ?rest = "concat (map (free_editor_only_includes repo)
                (filter (\<lambda>fl. free_dependency_path fl = Some self) fls))"
  let ?miss = "\<lambda>(f, i). i \<notin> set (includes_list (file_of repo self))"
  show ?case
  proof (cases "free_dependency_path fl = Some self")
    case False
    then have "filter (\<lambda>fl. free_dependency_path fl = Some self) (fl # fls)
        = filter (\<lambda>fl. free_dependency_path fl = Some self) fls"
      by simp
    moreover from False
    have "validate_files E self (length repo) (fl # fls) (repo, extra)
        = validate_files E self (length repo) fls (repo, extra)"
      by (simp add: free_dependency_file_known [OF k])
    ultimately show ?thesis
      using IH [of extra] by (simp only:)
  next
    case True
    let ?is = "editor_only_includes (file_of repo fl)"
    let ?missing = "\<lambda>i. free_dependency_path i = None \<and> i \<notin> set (includes_list (file_of repo self))"
    have f: "find ?miss (free_editor_only_includes repo fl) = map_option (Pair fl) (find ?missing ?is)"
      by (simp add: free_editor_only_includes_def find_map_Pair_filter)
    have s: "snd ` set (free_editor_only_includes repo fl)
        = set (filter (\<lambda>i. free_dependency_path i = None) ?is)"
      by (auto simp: free_editor_only_includes_def image_iff)
    have all: "concat (map (free_editor_only_includes repo)
                (filter (\<lambda>fl. free_dependency_path fl = Some self) (fl # fls)))
        = free_editor_only_includes repo fl @ ?rest"
      using True by simp
    have step: "validate_files E self (length repo) (fl # fls) (repo, extra) =
        (case validate_editor_only E self fl ?is (repo, extra) of
           Inl e \<Rightarrow> Inl e
         | Inr st \<Rightarrow> validate_files E self (length repo) fls st)"
      using True by (simp add: free_dependency_file_known [OF k])
    show ?thesis
    proof (cases "find ?missing ?is")
      case (Some i)
      with f have "find ?miss (free_editor_only_includes repo fl @ ?rest) = Some (fl, i)"
        by (simp add: find_append_first)
      moreover from Some
      have "validate_editor_only E self fl ?is (repo, extra) = Inl (NotIncludedFrom fl i self)"
        by (simp add: validate_editor_only_known [OF ke])
      ultimately show ?thesis
        unfolding step all by simp
    next
      case None
      with f have n: "find ?miss (free_editor_only_includes repo fl @ ?rest) = find ?miss ?rest"
        by (simp add: find_append_second)
      have e: "extra - set (filter (\<lambda>i. free_dependency_path i = None) ?is) - snd ` set ?rest
          = extra - snd ` set (free_editor_only_includes repo fl @ ?rest)"
        using s by (auto simp: image_Un)
      from None
      have v: "validate_editor_only E self fl ?is (repo, extra)
          = Inr (repo, extra - set (filter (\<lambda>i. free_dependency_path i = None) ?is))"
        by (simp add: validate_editor_only_known [OF ke])
      have "validate_files E self (length repo) (fl # fls) (repo, extra)
          = validate_files E self (length repo) fls
              (repo, extra - set (filter (\<lambda>i. free_dependency_path i = None) ?is))"
        unfolding step v by simp
      also have "\<dots> = (case find ?miss ?rest of
            Some (f, i) \<Rightarrow> Inl (NotIncludedFrom f i self)
          | None \<Rightarrow> Inr (repo, extra - set (filter (\<lambda>i. free_dependency_path i = None) ?is)
                - snd ` set ?rest))"
        by (rule IH)
      finally show ?thesis
        unfolding all n e .
    qed
  qed
qed

lemma aggregators_known_files:
  assumes "aggregators_known repo"
  shows "list_all (\<lambda>fl. aggregator_known repo fl \<and>
           list_all (aggregator_known repo) (editor_only_includes (file_of repo fl))) (map fst repo)"
proof -
  have "aggregator_known repo fl \<and>
      list_all (aggregator_known repo) (editor_only_includes (file_of repo fl))"
    if "fl \<in> fst ` set repo" for fl
  proof -
    from that obtain f where m: "map_of repo fl = Some f"
      by (metis domD dom_map_of_conv_image_fst)
    then have "(fl, f) \<in> set repo" by (rule map_of_SomeD)
    with assms have "aggregator_known repo fl \<and>
        list_all (aggregator_known repo) (editor_only_includes f)"
      by (auto simp: aggregators_known_def list_all_iff)
    with m show ?thesis by (simp add: file_of_def)
  qed
  then show ?thesis by (simp add: list_all_iff)
qed

lemma validate_free_dependency_file_known:
  assumes "is_free_dependency_file self" "aggregators_known repo"
  shows "validate_free_dependency_file E self repo =
     (case find (\<lambda>(f, i). i \<notin> set (includes_list (file_of repo self)))
             (required_includes repo self) of
        Some (f, i) \<Rightarrow> Inl (NotIncludedFrom f i self)
      | None \<Rightarrow>
          if set (includes_list (file_of repo self)) - snd ` set (required_includes repo self) \<noteq> {}
          then Inl (UnnecessaryIncludes self
                 (set (includes_list (file_of repo self)) - snd ` set (required_includes repo self)))
          else Inr repo)"
  using assms(1)
  by (simp add: validate_free_dependency_file_def required_includes_def governed_def
      validate_files_known [OF aggregators_known_files [OF assms(2)]]
      split: option.splits)

subsection \<open>The depth bound\<close>

text \<open>
  The bound on the depth of the includes is the one argument of the model that the
  program does not have. A run that does not end in \<open>OutOfFuel\<close> has not reached the
  bound, and a larger bound gives the same run.
\<close>

lemma and_then_fuel:
  assumes "and_then m k \<noteq> Inl OutOfFuel"
    and "\<And>x. m = Inr x \<Longrightarrow> k x \<noteq> Inl OutOfFuel \<Longrightarrow> k' x = k x"
  shows "and_then m k' = and_then m k"
  using assms by (cases m) (auto simp: and_then_def)

lemma and_then_fuel2:
  assumes "and_then m k \<noteq> Inl OutOfFuel"
    and "m \<noteq> Inl OutOfFuel \<Longrightarrow> m' = m"
    and "\<And>x. m = Inr x \<Longrightarrow> k x \<noteq> Inl OutOfFuel \<Longrightarrow> k' x = k x"
  shows "and_then m' k' = and_then m k"
  using assms by (cases m) (auto simp: and_then_def)

lemma fuel_Suc:
  "write_file n E fl a \<noteq> Inl OutOfFuel \<Longrightarrow> write_file (Suc n) E fl a = write_file n E fl a"
  "write_lines n E fl ls a \<noteq> Inl OutOfFuel \<Longrightarrow>
     write_lines (Suc n) E fl ls a = write_lines n E fl ls a"
  "maybe_write_file n E fl inc el a \<noteq> Inl OutOfFuel \<Longrightarrow>
     maybe_write_file (Suc n) E fl inc el a = maybe_write_file n E fl inc el a"
proof (induction n E fl a and n E fl ls a and n E fl inc el a
    rule: write_file_write_lines_maybe_write_file.induct)
  case (1 E fl a)
  then show ?case by simp
next
  case (2 n E fl a)
  from "2.prems" show ?case
    unfolding write_file.simps(2) [of "Suc n"] write_file.simps(2) [of n]
    apply (elim and_then_fuel)
    apply (simp split: option.splits)
    apply (elim and_then_fuel2)
    apply (rule "2.IH")
    apply simp_all
    done
next
  case (3 n E fl a)
  then show ?case by simp
next
  case (4 n E fl line lines a)
  from "4.prems" show ?case
    unfolding write_lines.simps(2) [of "Suc n"] write_lines.simps(2) [of n]
  proof (elim and_then_fuel)
    fix a1
    assume b: "begin_editor_only E fl line a = Inr a1"
      and k: "(if editor_only_region a1
         then and_then (editor_only_line E fl line a1) (write_lines n E fl lines)
         else if endif_amalgamated line then Inl (EndifWithoutIfndef fl)
              else case included line of
                   None \<Rightarrow> and_then (other_line E fl line a1) (write_lines n E fl lines)
                   | Some p \<Rightarrow>
                       and_then (include_line E fl p a1)
                        (\<lambda>a2. and_then (maybe_write_file n E p (Some fl) line a2)
                               (write_lines n E fl lines))) \<noteq> Inl OutOfFuel"
    show "(if editor_only_region a1
         then and_then (editor_only_line E fl line a1) (write_lines (Suc n) E fl lines)
         else if endif_amalgamated line then Inl (EndifWithoutIfndef fl)
              else case included line of
                   None \<Rightarrow> and_then (other_line E fl line a1) (write_lines (Suc n) E fl lines)
                   | Some p \<Rightarrow>
                       and_then (include_line E fl p a1)
                        (\<lambda>a2. and_then (maybe_write_file (Suc n) E p (Some fl) line a2)
                               (write_lines (Suc n) E fl lines))) =
        (if editor_only_region a1
         then and_then (editor_only_line E fl line a1) (write_lines n E fl lines)
         else if endif_amalgamated line then Inl (EndifWithoutIfndef fl)
              else case included line of
                   None \<Rightarrow> and_then (other_line E fl line a1) (write_lines n E fl lines)
                   | Some p \<Rightarrow>
                       and_then (include_line E fl p a1)
                        (\<lambda>a2. and_then (maybe_write_file n E p (Some fl) line a2)
                               (write_lines n E fl lines)))"
    proof (cases "editor_only_region a1")
      case True
      with k show ?thesis
        by (auto elim!: and_then_fuel intro: "4.IH"(1))
    next
      case r: False
      show ?thesis
      proof (cases "endif_amalgamated line")
        case True
        with r show ?thesis by simp
      next
        case e: False
        show ?thesis
        proof (cases "included line")
          case None
          with k r e show ?thesis
            by (auto elim!: and_then_fuel intro: "4.IH"(2))
        next
          case (Some p)
          with k r e have k': "and_then (include_line E fl p a1)
                        (\<lambda>a2. and_then (maybe_write_file n E p (Some fl) line a2)
                               (write_lines n E fl lines)) \<noteq> Inl OutOfFuel"
            by simp
          have "and_then (include_line E fl p a1)
                        (\<lambda>a2. and_then (maybe_write_file (Suc n) E p (Some fl) line a2)
                               (write_lines (Suc n) E fl lines)) =
                and_then (include_line E fl p a1)
                        (\<lambda>a2. and_then (maybe_write_file n E p (Some fl) line a2)
                               (write_lines n E fl lines))"
            using k'
          proof (elim and_then_fuel)
            fix a2
            assume "and_then (maybe_write_file n E p (Some fl) line a2)
                               (write_lines n E fl lines) \<noteq> Inl OutOfFuel"
            then show "and_then (maybe_write_file (Suc n) E p (Some fl) line a2)
                               (write_lines (Suc n) E fl lines) =
                and_then (maybe_write_file n E p (Some fl) line a2)
                               (write_lines n E fl lines)"
              by (elim and_then_fuel2) (auto intro: "4.IH"(3,4) [OF r e Some])
          qed
          with r e Some show ?thesis by simp
        qed
      qed
    qed
  qed
next
  case (5 n E fl inc el a)
  from "5.prems" show ?case
    unfolding maybe_write_file.simps [of "Suc n"] maybe_write_file.simps [of n]
    by (elim and_then_fuel) (auto split: prod.splits elim!: and_then_fuel intro: "5.IH" [of False, simplified])
qed

lemma fuel_le:
  assumes "maybe_write_file n E fl inc el a \<noteq> Inl OutOfFuel"
  shows "maybe_write_file (n + k) E fl inc el a = maybe_write_file n E fl inc el a"
proof (induction k)
  case 0
  show ?case by simp
next
  case (Suc k)
  with assms fuel_Suc(3) [of "n + k" E fl inc el a] show ?case by simp
qed

lemma amalgamate_fuel_le:
  assumes "amalgamate n E fl ts \<noteq> Inl OutOfFuel"
  shows "amalgamate (n + k) E fl ts = amalgamate n E fl ts"
  using assms unfolding amalgamate_def Let_def
  by (elim and_then_fuel and_then_fuel2) (auto intro: fuel_le)

text \<open>
  A run that has not run out of depth gives the same lines, or the same error, at every
  larger bound, and two runs that both stay within their bounds give the same.
\<close>

lemma amalgamate_fuel_independent:
  assumes "amalgamate n E fl timestamp \<noteq> Inl OutOfFuel"
  shows "(n \<le> m \<longrightarrow> amalgamate m E fl timestamp = amalgamate n E fl timestamp)
       \<and> (amalgamate m E fl timestamp \<noteq> Inl OutOfFuel \<longrightarrow>
            amalgamate m E fl timestamp = amalgamate n E fl timestamp)"
proof (cases "n \<le> m")
  case True
  then obtain k where "m = n + k" by (auto simp: le_iff_add)
  with amalgamate_fuel_le [OF assms, of k] show ?thesis by simp
next
  case False
  then obtain k where k: "n = m + k" by (metis le_iff_add nat_le_linear)
  have "amalgamate m E fl timestamp = amalgamate n E fl timestamp"
    if "amalgamate m E fl timestamp \<noteq> Inl OutOfFuel"
    using amalgamate_fuel_le [OF that, of k] k by simp
  with False show ?thesis by simp
qed

subsection \<open>The aggregators are in the repository when the check begins\<close>

text \<open>
  Every file that enters the repository is classified before the writer goes on (lines
  250, 153-157 and 166-168), and classifying a file fetches its aggregator. So the
  repository that the completeness check is given satisfies \<open>aggregators_known\<close>, the
  check loads no file, and the run reports the error of the first aggregator, in the
  order of the repository, whose check fails.
\<close>

lemma known_except_iff:
  "known_except ps repo \<longleftrightarrow>
     (\<forall>(q, f) \<in> set repo. (q \<in> set ps \<or> aggregator_known repo q) \<and>
        (\<forall>i \<in> set (editor_only_includes f). aggregator_known repo i))"
  by (auto simp: known_except_def list_all_iff)

lemma aggregators_known_except: "aggregators_known repo \<longleftrightarrow> known_except [] repo"
  by (simp add: aggregators_known_def known_except_def)

lemma known_except_weaken: "known_except ps repo \<Longrightarrow> set ps \<subseteq> set qs \<Longrightarrow> known_except qs repo"
  by (fastforce simp: known_except_iff)

lemma known_except_remove:
  "known_except (p # ps) repo \<Longrightarrow> aggregator_known repo p \<Longrightarrow> known_except ps repo"
  by (fastforce simp: known_except_iff)

lemma aggregator_known_mono:
  "aggregator_known repo p \<Longrightarrow> (\<And>x. contains repo x \<Longrightarrow> contains repo' x) \<Longrightarrow>
     aggregator_known repo' p"
  by (auto simp: aggregator_known_def split: option.splits)

lemma basename_dependencies: "basename (d @ ''/dependencies.h'') = ''dependencies.h''"
  by (simp add: basename_def)

lemma aggregator_is_free: "free_dependency_path p = Some q \<Longrightarrow> free_dependency_path q = None"
  by (auto simp: free_dependency_path_def is_free_dependency_file_def filename_def
      basename_dependencies basename_def split: if_splits)

lemma known_except_append:
  assumes "known_except ps repo"
  shows "known_except (p # ps) (repo @ [(p, new_file r)])"
proof -
  have m: "aggregator_known (repo @ [(p, new_file r)]) x" if "aggregator_known repo x" for x
    using that by (rule aggregator_known_mono) simp
  have e: "editor_only_includes (new_file r) = []"
    by (simp add: new_file_def)
  from assms show ?thesis
    unfolding known_except_iff by (fastforce simp: e intro: m)
qed

lemma getitem_known:
  "getitem E p repo = Inr repo' \<Longrightarrow> known_except ps repo \<Longrightarrow> known_except (p # ps) repo'"
  by (auto dest!: getitem_result intro: known_except_append known_except_weaken)

lemma getitem_aggregator_known:
  assumes "getitem E q repo = Inr repo'" "free_dependency_path q = None" "known_except ps repo"
  shows "known_except ps repo'"
proof -
  from assms(2) have "aggregator_known repo' q"
    by (simp add: aggregator_known_def)
  with getitem_known [OF assms(1,3)] show ?thesis
    by (rule known_except_remove)
qed

lemma getitem_now_contains: "getitem E q repo = Inr repo' \<Longrightarrow> contains repo' q"
  by (auto simp: getitem_def split: if_splits elim!: case_Inr_elim)

lemma free_dependency_file_keeps:
  assumes "free_dependency_file E x repo = Inr (d, repo')" "known_except ps repo"
  shows "known_except ps repo' \<and> aggregator_known repo' x"
  using assms
  by (auto simp: free_dependency_file_def aggregator_known_def split: option.splits
      elim!: case_Inr_elim dest: getitem_now_contains
      intro: getitem_aggregator_known aggregator_is_free)

lemma is_free_dependency_keeps:
  assumes "is_free_dependency E x repo = Inr (b, repo')" "known_except ps repo"
  shows "known_except ps repo' \<and> aggregator_known repo' x"
  using assms
  by (auto simp: is_free_dependency_def elim!: case_Inr_elim dest: free_dependency_file_keeps)

lemma is_amalgamated_keeps:
  assumes "is_amalgamated E x repo = Inr (b, repo')" "known_except ps repo"
  shows "known_except ps repo' \<and> aggregator_known repo' x"
  using assms
  by (auto simp: is_amalgamated_def elim!: case_Inr_elim dest: is_free_dependency_keeps)

lemma aggregator_known_map_entry [simp]:
  "aggregator_known (AList.map_entry k g repo) x = aggregator_known repo x"
  by (simp add: aggregator_known_def split: option.splits)

lemma in_map_entry:
  "(q, f') \<in> set (AList.map_entry k g repo) \<Longrightarrow>
     \<exists>f. (q, f) \<in> set repo \<and> (f' = f \<or> (q = k \<and> f' = g f))"
  by (induction repo) (auto split: if_splits)

lemma known_except_map_entry:
  assumes "known_except ps repo"
    and "\<And>f. \<forall>i \<in> set (editor_only_includes f). aggregator_known repo i \<Longrightarrow>
           \<forall>i \<in> set (editor_only_includes (g f)). aggregator_known repo i"
  shows "known_except ps (AList.map_entry k g repo)"
  unfolding known_except_iff
proof (clarify, intro conjI)
  fix q f'
  assume "(q, f') \<in> set (AList.map_entry k g repo)"
  then obtain f where f: "(q, f) \<in> set repo" and c: "f' = f \<or> (q = k \<and> f' = g f)"
    by (blast dest: in_map_entry)
  from assms(1) f have q: "q \<in> set ps \<or> aggregator_known repo q"
    and e: "\<forall>i \<in> set (editor_only_includes f). aggregator_known repo i"
    by (auto simp: known_except_iff)
  from q show "q \<in> set ps \<or> aggregator_known (AList.map_entry k g repo) q"
    by simp
  from c e assms(2) [OF e]
  show "\<forall>i \<in> set (editor_only_includes f'). aggregator_known (AList.map_entry k g repo) i"
    by auto
qed

lemma record_include_known:
  "known_except ps repo \<Longrightarrow> known_except ps (record_include self incl repo)"
  unfolding record_include_def
  by (intro known_except_map_entry) simp_all

lemma set_processed_known:
  "known_except ps repo \<Longrightarrow> known_except ps (set_processed fl b repo)"
  unfolding set_processed_def
  by (intro known_except_map_entry) simp_all

lemma record_editor_only_include_known:
  "known_except ps repo \<Longrightarrow> aggregator_known repo incl \<Longrightarrow>
     known_except ps (record_editor_only_include self incl repo)"
  unfolding record_editor_only_include_def
  by (intro known_except_map_entry) simp_all

lemma add_include_known:
  assumes "add_include E self incl repo = Inr repo'" "known_except (incl # ps) repo"
  shows "known_except ps repo'"
proof -
  from assms(1) obtain b1 repo1 b2 repo2 where
    s: "is_free_dependency E self repo = Inr (b1, repo1)" and
    i: "is_free_dependency E incl repo1 = Inr (b2, repo2)" and
    r: "repo' = record_include self incl repo2"
    by (auto simp: add_include_def split: if_splits bool.splits elim!: case_Inr_elim)
  from is_free_dependency_keeps [OF s assms(2)] have "known_except (incl # ps) repo1" ..
  from is_free_dependency_keeps [OF i this]
  have "known_except ps repo2"
    by (blast intro: known_except_remove)
  then show ?thesis
    unfolding r by (rule record_include_known)
qed

lemma add_editor_only_include_known:
  assumes "add_editor_only_include E self incl repo = Inr repo'" "known_except (incl # ps) repo"
  shows "known_except ps repo'"
proof -
  from assms(1) obtain b1 repo1 where
    s: "is_amalgamated E self repo = Inr (b1, repo1)" and
    s': "(case is_free_dependency E incl repo1 of
            Inl e \<Rightarrow> Inl e
          | Inr (False, repo2) \<Rightarrow> Inr (record_editor_only_include self incl repo2)
          | Inr (True, repo2) \<Rightarrow>
              (case free_dependency_file E self repo2 of
                 Inl e \<Rightarrow> Inl e
               | Inr (None, repo3) \<Rightarrow> Inl (CannotIncludeWithoutIfndef self incl)
               | Inr (Some d, repo3) \<Rightarrow>
                   Inr (record_editor_only_include self incl repo3))) = Inr repo'"
    by (auto simp: add_editor_only_include_def split: if_splits elim!: case_Inr_elim)
  from s' obtain b2 repo2 where
    i: "is_free_dependency E incl repo1 = Inr (b2, repo2)" and
    i': "(if b2 then
           (case free_dependency_file E self repo2 of
                 Inl e \<Rightarrow> Inl e
               | Inr (None, repo3) \<Rightarrow> Inl (CannotIncludeWithoutIfndef self incl)
               | Inr (Some d, repo3) \<Rightarrow>
                   Inr (record_editor_only_include self incl repo3))
          else Inr (record_editor_only_include self incl repo2)) = Inr repo'"
    by (auto split: bool.splits elim!: case_Inr_elim)
  from is_amalgamated_keeps [OF s assms(2)] have "known_except (incl # ps) repo1" ..
  from is_free_dependency_keeps [OF i this]
  have k2: "known_except (incl # ps) repo2" and a2: "aggregator_known repo2 incl"
    by simp_all
  show ?thesis
  proof (cases b2)
    case False
    with i' have r: "repo' = record_editor_only_include self incl repo2"
      by simp
    from k2 a2 have "known_except ps repo2"
      by (rule known_except_remove)
    then show ?thesis
      unfolding r using a2 by (rule record_editor_only_include_known)
  next
    case True
    with i' obtain d repo3 where
      d: "free_dependency_file E self repo2 = Inr (d, repo3)" and
      r: "repo' = record_editor_only_include self incl repo3"
      by (auto split: option.splits elim!: case_Inr_elim)
    from free_dependency_file_keeps [OF d k2] have k3: "known_except (incl # ps) repo3" ..
    from d a2 have a3: "aggregator_known repo3 incl"
      by (auto dest!: free_dependency_file_result intro: aggregator_known_mono)
    from k3 a3 have "known_except ps repo3"
      by (rule known_except_remove)
    then show ?thesis
      unfolding r using a3 by (rule record_editor_only_include_known)
  qed
qed

lemma file_to_str_known:
  "file_to_str E f a = Inr (s, a') \<Longrightarrow> known_except ps (repository a) \<Longrightarrow>
     known_except ps (repository a')"
  by (auto simp: file_to_str_def split: if_splits elim!: case_Inr_elim;
      blast dest: is_amalgamated_keeps)

lemma begin_file_known:
  "begin_file E f a = Inr a' \<Longrightarrow> known_except ps (repository a) \<Longrightarrow>
     known_except ps (repository a')"
  by (auto simp: begin_file_def Let_def file_equals_str_def split: if_splits
      elim!: case_Inr_elim;
      (drule file_to_str_known [where ps = ps]; simp add: set_processed_known))

lemma end_file_known:
  "end_file E f a = Inr a' \<Longrightarrow> known_except ps (repository a) \<Longrightarrow>
     known_except ps (repository a')"
  by (auto simp: end_file_def Let_def split: if_splits elim!: case_Inr_elim;
      (drule file_to_str_known [where ps = ps]; simp add: set_processed_known))

lemma begin_editor_only_known:
  "begin_editor_only E f l a = Inr a' \<Longrightarrow> known_except ps (repository a) \<Longrightarrow>
     known_except ps (repository a')"
  by (auto simp: begin_editor_only_def split: if_splits elim!: case_Inr_elim;
      blast dest: is_amalgamated_keeps)

lemma editor_only_line_known:
  "editor_only_line E f l a = Inr a' \<Longrightarrow> known_except ps (repository a) \<Longrightarrow>
     known_except ps (repository a')"
  by (auto simp: editor_only_line_def Let_def split: if_splits option.splits
      elim!: case_Inr_elim; blast dest: getitem_known add_editor_only_include_known)

lemma include_line_known:
  "include_line E f p a = Inr a' \<Longrightarrow> known_except ps (repository a) \<Longrightarrow>
     known_except ps (repository a')"
  by (auto simp: include_line_def elim!: case_Inr_elim;
      blast dest: getitem_known add_include_known)

lemma implementation_line_known:
  "implementation_line E f l a = Inr (l', a') \<Longrightarrow> repository a' = repository a"
  by (auto simp: implementation_line_def Let_def split: if_splits option.splits
      elim!: case_Inr_elim)

lemma amalgamated_line_known:
  "amalgamated_line E f l a = Inr a' \<Longrightarrow> known_except ps (repository a) \<Longrightarrow>
     known_except ps (repository a')"
  by (auto simp: amalgamated_line_def split: if_splits elim!: case_Inr_elim;
      blast dest: is_amalgamated_keeps)

lemma other_line_known:
  assumes "other_line E f l a = Inr a'" "known_except ps (repository a)"
  shows "known_except ps (repository a')"
proof -
  from assms(1) obtain l1 a1 a2 where
    i: "implementation_line E f l a = Inr (l1, a1)" and
    m: "amalgamated_line E f l1 a1 = Inr a2" and
    w: "a' = write_out l1 a2"
    by (auto simp: other_line_def elim!: case_Inr_elim)
  from implementation_line_known [OF i] assms(2) have "known_except ps (repository a1)"
    by simp
  from amalgamated_line_known [OF m this] show ?thesis
    unfolding w by (simp add: write_out_def)
qed

lemma seen_before_known:
  assumes "seen_before E f i a = Inr (skip, a')" "known_except (f # ps) (repository a)"
  shows "known_except ps (repository a')"
proof -
  from assms(1) obtain am repo where
    m: "is_amalgamated E f (repository a) = Inr (am, repo)" and r: "repository a' = repo"
    by (auto simp: seen_before_def Let_def split: if_splits elim!: case_Inr_elim)
  from is_amalgamated_keeps [OF m assms(2)] show ?thesis
    unfolding r by (blast intro: known_except_remove)
qed

lemma writer_known:
  shows "write_file n E f a = Inr a' \<Longrightarrow> known_except [] (repository a) \<Longrightarrow>
      known_except [] (repository a')"
    and "write_lines n E f ls a = Inr a' \<Longrightarrow> known_except [] (repository a) \<Longrightarrow>
      known_except [] (repository a')"
    and "maybe_write_file n E f i l a = Inr a' \<Longrightarrow> known_except [f] (repository a) \<Longrightarrow>
      known_except [] (repository a')"
proof (induction n E f a and n E f ls a and n E f i l a arbitrary: a' and a' and a'
    rule: write_file_write_lines_maybe_write_file.induct)
  case (1 E f a)
  then show ?case by simp
next
  case (2 n E f a)
  from "2.prems"(1) obtain a1 ls a2 where
    b: "begin_file E f a = Inr a1" and
    t: "tree E (root (file_of (repository a1) f), f) = Some ls" and
    w: "write_lines n E f ls a1 = Inr a2" and
    e: "end_file E f a2 = Inr a'"
    by (rule write_file_Inr)
  from begin_file_known [OF b "2.prems"(2)] have "known_except [] (repository a1)" .
  from "2.IH" [OF t w this] have "known_except [] (repository a2)" .
  with e show ?case by (rule end_file_known)
next
  case (3 n E f a)
  then show ?case by simp
next
  case (4 n E f l ls a)
  from "4.prems"(1) show ?case
  proof (cases rule: write_lines_Inr)
    case (editor_only a1 a2)
    from begin_editor_only_known [OF editor_only(1) "4.prems"(2)]
    have "known_except [] (repository a1)" .
    from editor_only_line_known [OF editor_only(3) this]
    have "known_except [] (repository a2)" .
    with "4.IH"(1) [OF editor_only(2,4)] show ?thesis .
  next
    case (included a1 p a2 a3)
    from begin_editor_only_known [OF included(1) "4.prems"(2)]
    have "known_except [] (repository a1)" .
    from include_line_known [OF included(5) this]
    have "known_except [] (repository a2)" .
    then have "known_except [p] (repository a2)"
      by (rule known_except_weaken) simp
    from "4.IH"(3) [OF included(2,3,4,6) this] have "known_except [] (repository a3)" .
    with "4.IH"(4) [OF included(2,3,4,7)] show ?thesis .
  next
    case (other a1 a2)
    from begin_editor_only_known [OF other(1) "4.prems"(2)]
    have "known_except [] (repository a1)" .
    from other_line_known [OF other(5) this]
    have "known_except [] (repository a2)" .
    with "4.IH"(2) [OF other(2,3,4,6)] show ?thesis .
  qed
next
  case (5 n E f i l a)
  from "5.prems"(1) show ?case
  proof (cases rule: maybe_write_file_Inr)
    case (skipped a1)
    from seen_before_known [OF skipped(1) "5.prems"(2)] skipped(2) show ?thesis
      by (simp add: write_out_def)
  next
    case (written a1 s a2)
    from seen_before_known [OF written(1) "5.prems"(2)]
    have "known_except [] (repository a1)" .
    from file_to_str_known [OF written(2) this]
    have "known_except [] (repository (write_out (''/* including '' @ s @ '': '' @ l @ '' */'') a2))"
      by (simp add: write_out_def)
    with "5.IH" [OF _ written(3)] show ?thesis
      by blast
  qed
qed

lemma validate_free_dependency_file_same:
  assumes "aggregators_known repo" "validate_free_dependency_file E self repo = Inr repo'"
  shows "repo' = repo"
proof (cases "is_free_dependency_file self")
  case True
  from assms(2) show ?thesis
    unfolding validate_free_dependency_file_known [OF True assms(1)]
    by (auto split: option.splits if_splits)
next
  case False
  with assms(2) show ?thesis
    by (simp add: validate_free_dependency_file_def)
qed

lemma validate_all_known:
  assumes "aggregators_known repo"
  shows "validate_all E (length repo) fls repo =
     (case find (\<lambda>self. validate_free_dependency_file E self repo \<noteq> Inr repo) fls of
        None \<Rightarrow> Inr repo
      | Some self \<Rightarrow> validate_free_dependency_file E self repo)"
proof (induction fls)
  case Nil
  show ?case by simp
next
  case (Cons fl fls)
  show ?case
  proof (cases "validate_free_dependency_file E fl repo")
    case (Inl e)
    then show ?thesis by simp
  next
    case (Inr repo')
    with validate_free_dependency_file_same [OF assms Inr] have "validate_free_dependency_file E fl repo = Inr repo"
      by simp
    with Cons.IH show ?thesis by simp
  qed
qed

lemma run_aggregators_known:
  assumes "getitem E fl [] = Inr repo"
    and "maybe_write_file n E fl None [] ((new_amalgamator out)\<lparr>repository := repo\<rparr>) = Inr a"
  shows "aggregators_known (repository a)"
proof -
  have "known_except [] []"
    by (simp add: known_except_def)
  from getitem_known [OF assms(1) this] have "known_except [fl] repo" .
  then have "known_except [fl] (repository ((new_amalgamator out)\<lparr>repository := repo\<rparr>))"
    by simp
  from writer_known(3) [OF assms(2) this] show ?thesis
    by (simp add: aggregators_known_except)
qed

lemma run_reports_first_failing_check:
  assumes "getitem E fl [] = Inr repo"
    and "maybe_write_file n E fl None []
           ((new_amalgamator [''/* auto-generated on '' @ timestamp @ ''. Do not edit! */''])
              \<lparr>repository := repo\<rparr>) = Inr a"
  shows "amalgamate n E fl timestamp =
     (case find (\<lambda>self. validate_free_dependency_file E self (repository a) \<noteq> Inr (repository a))
             (map fst (repository a)) of
        None \<Rightarrow> Inr (fid a)
      | Some self \<Rightarrow>
          (case validate_free_dependency_file E self (repository a) of
             Inl e \<Rightarrow> Inl e | Inr r \<Rightarrow> Inr (fid a)))"
proof -
  note k = run_aggregators_known [OF assms]
  have r: "repository (new_amalgamator out) = []" for out
    by (simp add: new_amalgamator_def)
  show ?thesis
    using assms
    by (simp add: amalgamate_def Let_def r validate_free_dependency_files_def
        validate_all_known [OF k] and_then_def split: option.splits sum.splits)
qed

subsection \<open>Recording an include\<close>

text \<open>
  Claim C3, as the code has it. For every call of \<^verbatim>\<open>add_include\<close> of the file \<open>self\<close> for
  the file \<open>incl\<close>: if \<open>self\<close> is a free-dependency file, the call succeeds only when
  \<open>incl\<close> is a free-dependency file or an amalgamator file; if \<open>self\<close> is an amalgamated
  file and \<open>incl\<close> is a free-dependency file, the call fails, with an error that names
  both files; on success \<open>incl\<close> is appended to the includes of \<open>self\<close> and \<open>self\<close> is
  added to the set \<^verbatim>\<open>included_from\<close> of \<open>incl\<close>; and a failure is either one of the two
  layering errors, which name both files, or an error of the repository, raised while
  the aggregator of \<open>self\<close> or of \<open>incl\<close> is looked up to classify the file.
\<close>

theorem add_include_layering:
  "(free_dependency_path self = None \<longrightarrow> add_include E self incl repo = Inr repo' \<longrightarrow>
       free_dependency_path incl = None \<or> is_amalgamator (root (file_of repo' incl)) incl)
   \<and> (is_free_dependency E self repo = Inr (False, repo1) \<longrightarrow> free_dependency_path incl = None \<longrightarrow>
       add_include E self incl repo = Inl (CannotIncludeWithoutIfndef self incl))
   \<and> (add_include E self incl repo = Inr repo' \<longrightarrow> contains repo self \<longrightarrow> contains repo incl \<longrightarrow>
         includes_list (file_of repo' self) = includes_list (file_of repo self) @ [incl] \<and>
         included_from (file_of repo' incl) = insert self (included_from (file_of repo incl)))
   \<and> (add_include E self incl repo = Inl e \<longrightarrow>
         e = CannotIncludeAmalgamated self incl \<or> e = CannotIncludeWithoutIfndef self incl \<or>
         e = ExistsInBoth \<or>
         (\<exists>q. e = NotFound q (relative_roots E) \<and>
              (free_dependency_path self = Some q \<or> free_dependency_path incl = Some q)))"
proof -
  have p1: "free_dependency_path incl = None \<or> is_amalgamator (root (file_of repo' incl)) incl"
    if "free_dependency_path self = None" and "add_include E self incl repo = Inr repo'"
    using that
    by (auto simp: add_include_def is_free_dependency_free
        split: sum.splits prod.splits if_splits bool.splits dest!: is_free_dependency_result)
  have p2: "add_include E self incl repo = Inl (CannotIncludeWithoutIfndef self incl)"
    if "is_free_dependency E self repo = Inr (False, repo1)" and "free_dependency_path incl = None"
    using that by (simp add: add_include_def is_free_dependency_free)
  have p3: "includes_list (file_of repo' self) = includes_list (file_of repo self) @ [incl] \<and>
         included_from (file_of repo' incl) = insert self (included_from (file_of repo incl))"
    if ok: "add_include E self incl repo = Inr repo'"
      and cs: "contains repo self" and ci: "contains repo incl"
  proof -
    from ok obtain b1 r1 b2 r2 where
      1: "is_free_dependency E self repo = Inr (b1, r1)" and
      2: "is_free_dependency E incl r1 = Inr (b2, r2)" and
      3: "repo' = record_include self incl r2"
      by (auto simp: add_include_def split: sum.splits prod.splits if_splits bool.splits)
    from 1 2 cs ci have "contains r2 self" "contains r2 incl"
      "file_of r2 self = file_of repo self" "file_of r2 incl = file_of repo incl"
      by (auto dest!: is_free_dependency_result)
    with 3 show ?thesis
      by (auto simp: record_include_def file_of_map_entry)
  qed
  have p4: "e = CannotIncludeAmalgamated self incl \<or> e = CannotIncludeWithoutIfndef self incl \<or>
         e = ExistsInBoth \<or>
         (\<exists>q. e = NotFound q (relative_roots E) \<and>
              (free_dependency_path self = Some q \<or> free_dependency_path incl = Some q))"
    if "add_include E self incl repo = Inl e"
    using that
    by (auto simp: add_include_def split: sum.splits prod.splits if_splits bool.splits
        dest: is_free_dependency_error)
  from p1 p2 p3 p4 show ?thesis by blast
qed

text \<open>
  The theorem at work: \<^verbatim>\<open>simdjson.h\<close>, a free-dependency file, may include the amalgamator
  \<^verbatim>\<open>simdjson/arm64.h\<close>, and the include is recorded on both sides; the other way round
  the call fails and the error names both files.
\<close>

theorem add_include_layering_witness:
  "free_dependency_path ''simdjson.h'' = None
   \<and> add_include tree_arm64_twice ''simdjson.h'' ''simdjson/arm64.h'' repository_two_files
       = Inr repository_two_files_included
   \<and> contains repository_two_files ''simdjson.h''
   \<and> contains repository_two_files ''simdjson/arm64.h''
   \<and> is_amalgamator (root (file_of repository_two_files_included ''simdjson/arm64.h''))
        ''simdjson/arm64.h''
   \<and> includes_list (file_of repository_two_files_included ''simdjson.h'')
        = includes_list (file_of repository_two_files ''simdjson.h'') @ [''simdjson/arm64.h'']
   \<and> included_from (file_of repository_two_files_included ''simdjson/arm64.h'')
        = insert ''simdjson.h'' (included_from (file_of repository_two_files ''simdjson/arm64.h''))
   \<and> is_free_dependency tree_arm64_twice ''simdjson/arm64.h'' repository_two_files
        = Inr (False, repository_two_files @ [(''simdjson/generic/dependencies.h'', new_file ''include'')])
   \<and> add_include tree_arm64_twice ''simdjson/arm64.h'' ''simdjson.h'' repository_two_files
        = Inl (CannotIncludeWithoutIfndef ''simdjson/arm64.h'' ''simdjson.h'')"
proof -
  have h1: "free_dependency_path ''simdjson.h'' = None"
    by code_simp
  have h2: "add_include tree_arm64_twice ''simdjson.h'' ''simdjson/arm64.h'' repository_two_files
       = Inr repository_two_files_included"
    by code_simp
  have h3: "contains repository_two_files ''simdjson.h''"
    by code_simp
  have h4: "contains repository_two_files ''simdjson/arm64.h''"
    by code_simp
  have h5: "is_free_dependency tree_arm64_twice ''simdjson/arm64.h'' repository_two_files
        = Inr (False, repository_two_files @ [(''simdjson/generic/dependencies.h'', new_file ''include'')])"
    by code_simp
  from add_include_layering [of "''simdjson.h''" tree_arm64_twice "''simdjson/arm64.h''"
      repository_two_files repository_two_files_included] h1 h2 h3 h4
  have c1: "is_amalgamator (root (file_of repository_two_files_included ''simdjson/arm64.h''))
        ''simdjson/arm64.h''
   \<and> includes_list (file_of repository_two_files_included ''simdjson.h'')
        = includes_list (file_of repository_two_files ''simdjson.h'') @ [''simdjson/arm64.h'']
   \<and> included_from (file_of repository_two_files_included ''simdjson/arm64.h'')
        = insert ''simdjson.h'' (included_from (file_of repository_two_files ''simdjson/arm64.h''))"
    by (simp add: free_dependency_path_def is_free_dependency_file_def filename_def basename_def
        implementation_of_def implementation_at_def IMPLEMENTATIONS_def include_dir_def dirname_def)
  from add_include_layering [of "''simdjson/arm64.h''" tree_arm64_twice "''simdjson.h''"
      repository_two_files _ _] h5 h1
  have c2: "add_include tree_arm64_twice ''simdjson/arm64.h'' ''simdjson.h'' repository_two_files
        = Inl (CannotIncludeWithoutIfndef ''simdjson/arm64.h'' ''simdjson.h'')"
    by blast
  from h1 h2 h3 h4 h5 c1 c2 show ?thesis by blast
qed

text \<open>
  Where the claim fails as it is written (every failure a layering error that names both
  files): \<^verbatim>\<open>simdjson.h\<close> includes \<^verbatim>\<open>simdjson/arm64.h\<close> in a tree that has no
  \<^verbatim>\<open>simdjson/generic/dependencies.h\<close>. To classify \<^verbatim>\<open>simdjson/arm64.h\<close> the property
  \<^verbatim>\<open>free_dependency_file\<close> asks the repository for its aggregator, and the call fails with
  the error of \<^verbatim>\<open>_included_filename_root\<close>, which names the aggregator only.
\<close>

theorem add_include_configuration_error:
  "add_include tree_no_aggregator ''simdjson.h'' ''simdjson/arm64.h'' repository_two_files
     = Inl (NotFound ''simdjson/generic/dependencies.h'' [''include''])"
  by code_simp

subsection \<open>Files written once\<close>

text \<open>
  The branch of \<^verbatim>\<open>maybe_write_file\<close> for free-dependency files (lines 261-264). A
  free-dependency file (a file with no aggregator) is expanded at most once in a run:
  when it is included and is not yet in \<^verbatim>\<open>found_includes\<close> it is put there before it is
  expanded; a file that is in \<^verbatim>\<open>found_includes\<close> stays there through every later line
  and every later include; and when a file that is in \<^verbatim>\<open>found_includes\<close> is included,
  the writer prints the skipped-duplicate annotation and does nothing else.
\<close>

lemma free_dependency_file_written_once:
  assumes "free_dependency_path f = None"
  shows "(f \<in> found_includes a \<longrightarrow>
            maybe_write_file n E f i l a = Inr (write_out (''/* skipped duplicate '' @ l @ '' */'') a))
       \<and> (f \<notin> found_includes a \<longrightarrow>
            seen_before E f i a = Inr (False, a\<lparr>found_includes := insert f (found_includes a)\<rparr>))
       \<and> (maybe_write_file n E f i l a = Inr a' \<longrightarrow> f \<in> found_includes a')
       \<and> (f \<in> found_includes a \<and> write_lines n E g ls a = Inr a' \<longrightarrow> f \<in> found_includes a')
       \<and> (f \<in> found_includes a \<and> maybe_write_file n E g i l a = Inr a' \<longrightarrow> f \<in> found_includes a')"
proof -
  note s = seen_before_free [OF assms]
  have p1: "maybe_write_file n E f i l a = Inr (write_out (''/* skipped duplicate '' @ l @ '' */'') a)"
    if "f \<in> found_includes a"
    using that by (simp add: maybe_write_file.simps s)
  have p2: "seen_before E f i a = Inr (False, a\<lparr>found_includes := insert f (found_includes a)\<rparr>)"
    if "f \<notin> found_includes a"
    using that by (simp add: s)
  have p4: "f \<in> found_includes a'" if "f \<in> found_includes a" "write_lines n E g ls a = Inr a'"
    using writer_seen_grows(2) [OF that(2)] that(1) by (auto simp: seen_grows_def)
  have p5: "f \<in> found_includes a'" if "f \<in> found_includes a" "maybe_write_file n E g i l a = Inr a'"
    using writer_seen_grows(3) [OF that(2)] that(1) by (auto simp: seen_grows_def)
  have p3: "f \<in> found_includes a'" if m: "maybe_write_file n E f i l a = Inr a'"
  proof (cases "f \<in> found_includes a")
    case True
    with writer_seen_grows(3) [OF m] show ?thesis by (auto simp: seen_grows_def)
  next
    case False
    from m show ?thesis
    proof (cases rule: maybe_write_file_Inr)
      case (skipped a1)
      with False s show ?thesis by simp
    next
      case (written a1 s' a2)
      from written(1) False s have "f \<in> found_includes a1" by auto
      with written(2) have "f \<in> found_includes (write_out (''/* including '' @ s' @ '': '' @ l @ '' */'') a2)"
        by (auto dest!: file_to_str_seen)
      with writer_seen_grows(1) [OF written(3)] show ?thesis
        by (auto simp: seen_grows_def)
    qed
  qed
  from p1 p2 p3 p4 p5 show ?thesis by blast
qed

lemma free_dependency_file_written_once_example:
  "free_dependency_path ''simdjson.h'' = None
   \<and> ''simdjson.h'' \<in> found_includes amalgamator_in_header
   \<and> maybe_write_file 1 tree_arm64_twice ''simdjson.h'' (Some ''simdjson/arm64.h'')
        ''#include \"simdjson.h\"'' amalgamator_in_header
        = Inr (write_out ''/* skipped duplicate #include \"simdjson.h\" */'' amalgamator_in_header)
   \<and> ''simdjson.h'' \<notin> found_includes (new_amalgamator [])
   \<and> seen_before tree_arm64_twice ''simdjson.h'' None (new_amalgamator [])
        = Inr (False, (new_amalgamator [])\<lparr>found_includes := {''simdjson.h''}\<rparr>)
   \<and> write_lines 1 tree_arm64_twice ''simdjson.h'' [''int x;'', ''int y;''] amalgamator_in_header
        = Inr (write_out ''int y;'' (write_out ''int x;'' amalgamator_in_header))
   \<and> ''simdjson.h'' \<in> found_includes (write_out ''int y;'' (write_out ''int x;'' amalgamator_in_header))"
proof -
  have h1: "free_dependency_path ''simdjson.h'' = None"
    by code_simp
  have h2: "''simdjson.h'' \<in> found_includes amalgamator_in_header"
    by code_simp
  have h3: "''simdjson.h'' \<notin> found_includes (new_amalgamator [])"
    by code_simp
  have h4: "write_lines 1 tree_arm64_twice ''simdjson.h'' [''int x;'', ''int y;''] amalgamator_in_header
        = Inr (write_out ''int y;'' (write_out ''int x;'' amalgamator_in_header))"
    by code_simp
  from free_dependency_file_written_once [OF h1, of amalgamator_in_header 1 tree_arm64_twice
      "Some ''simdjson/arm64.h''" "''#include \"simdjson.h\"''"] h2
  have c1: "maybe_write_file 1 tree_arm64_twice ''simdjson.h'' (Some ''simdjson/arm64.h'')
        ''#include \"simdjson.h\"'' amalgamator_in_header
        = Inr (write_out ''/* skipped duplicate #include \"simdjson.h\" */'' amalgamator_in_header)"
    by simp
  from free_dependency_file_written_once [OF h1, of "new_amalgamator []" _ tree_arm64_twice None] h3
  have c2: "seen_before tree_arm64_twice ''simdjson.h'' None (new_amalgamator [])
        = Inr (False, (new_amalgamator [])\<lparr>found_includes := {''simdjson.h''}\<rparr>)"
    by (simp add: new_amalgamator_def)
  from free_dependency_file_written_once [OF h1, of amalgamator_in_header 1 tree_arm64_twice
      _ _ _ "''simdjson.h''" "[''int x;'', ''int y;'']"] h2 h4
  have c3: "''simdjson.h'' \<in> found_includes (write_out ''int y;'' (write_out ''int x;'' amalgamator_in_header))"
    by blast
  from h1 h2 h3 h4 c1 c2 c3 show ?thesis by blast
qed

text \<open>
  Claim C1. In a run, every file that is not generic is expanded at most once, and a
  skipped-duplicate annotation stands for every include after the first. The comments
  of lines 257 and 323 say the same, and the branch for free-dependency files does it.
  The branch for amalgamated files that are not generic (lines 256-259) does not:
  it puts the file into \<^verbatim>\<open>found_includes_per_amalgamation\<close>, a set that is never tested,
  and goes on to expand the file. Here \<^verbatim>\<open>simdjson.h\<close> includes \<^verbatim>\<open>simdjson/arm64.h\<close>
  twice; that file is amalgamated (its aggregator is
  \<^verbatim>\<open>simdjson/generic/dependencies.h\<close>) and is not generic, and the output holds its
  content twice and no skipped-duplicate annotation.
\<close>

theorem amalgamated_file_written_twice:
  "amalgamate 2 tree_arm64_twice ''simdjson.h'' ''2024-01-01'' =
     Inr [''/* auto-generated on 2024-01-01. Do not edit! */'',
          ''/* including simdjson.h:  */'',
          ''/* begin file simdjson.h */'',
          ''/* including simdjson/arm64.h: #include \"simdjson/arm64.h\" */'',
          ''/* begin file simdjson/arm64.h */'',
          ''int x;'',
          ''/* end file simdjson/arm64.h */'',
          ''/* including simdjson/arm64.h: #include \"simdjson/arm64.h\" */'',
          ''/* begin file simdjson/arm64.h */'',
          ''int x;'',
          ''/* end file simdjson/arm64.h */'',
          ''/* end file simdjson.h */'']"
  by code_simp

text \<open>
  Claim C2, as the code has it. When the direct includes of an aggregator lack a
  free-dependency file that a file governed by the aggregator includes editor-only, the
  check of the aggregator fails with one error, which names the first such pair in the
  order of the loops (the files of the repository in insertion order, the editor-only
  includes of each in the order of the lines): the governed file, the file that is
  missing, and the aggregator. Files that are missing further on are not reported.
\<close>

theorem first_missing_include_reported:
  assumes "is_free_dependency_file self" "aggregators_known repo"
    "find (\<lambda>(f, i). i \<notin> set (includes_list (file_of repo self))) (required_includes repo self)
       = Some (fl, i)"
  shows "validate_free_dependency_file E self repo = Inl (NotIncludedFrom fl i self)"
  using assms(3) by (simp add: validate_free_dependency_file_known [OF assms(1,2)])

theorem first_missing_include_reported_witness:
  "is_free_dependency_file ''simdjson/generic/dependencies.h''
   \<and> aggregators_known repository_two_missing
   \<and> find (\<lambda>(f, i). i \<notin> set (includes_list
          (file_of repository_two_missing ''simdjson/generic/dependencies.h'')))
        (required_includes repository_two_missing ''simdjson/generic/dependencies.h'')
        = Some (''simdjson/arm64.h'', ''a.h'')
   \<and> validate_free_dependency_file tree_two_missing ''simdjson/generic/dependencies.h''
        repository_two_missing
        = Inl (NotIncludedFrom ''simdjson/arm64.h'' ''a.h'' ''simdjson/generic/dependencies.h'')"
proof -
  have h1: "is_free_dependency_file ''simdjson/generic/dependencies.h''"
    by code_simp
  have h2: "aggregators_known repository_two_missing"
    by code_simp
  have h3: "find (\<lambda>(f, i). i \<notin> set (includes_list
          (file_of repository_two_missing ''simdjson/generic/dependencies.h'')))
        (required_includes repository_two_missing ''simdjson/generic/dependencies.h'')
        = Some (''simdjson/arm64.h'', ''a.h'')"
    by code_simp
  from first_missing_include_reported [OF h1 h2 h3, of tree_two_missing] h1 h2 h3
  show ?thesis by blast
qed

text \<open>
  Where the claim fails as it is written (the error lists the complete set of the
  missing files). \<^verbatim>\<open>simdjson/arm64.h\<close> includes \<^verbatim>\<open>a.h\<close> and \<^verbatim>\<open>b.h\<close> in its editor-only
  region and its aggregator includes neither. The assertion of line 183 is inside the
  loops, so the run ends at \<^verbatim>\<open>a.h\<close>, and the error names \<^verbatim>\<open>a.h\<close> only.
\<close>

theorem only_first_missing_include_reported:
  "required_includes repository_two_missing ''simdjson/generic/dependencies.h''
     = [(''simdjson/arm64.h'', ''a.h''), (''simdjson/arm64.h'', ''b.h'')]
   \<and> includes_list (file_of repository_two_missing ''simdjson/generic/dependencies.h'') = []
   \<and> validate_free_dependency_file tree_two_missing ''simdjson/generic/dependencies.h''
        repository_two_missing
        = Inl (NotIncludedFrom ''simdjson/arm64.h'' ''a.h'' ''simdjson/generic/dependencies.h'')
   \<and> amalgamate 2 tree_two_missing ''simdjson.h'' ''2024-01-01''
        = Inl (NotIncludedFrom ''simdjson/arm64.h'' ''a.h'' ''simdjson/generic/dependencies.h'')"
  by code_simp

subsection \<open>Generic files\<close>

text \<open>
  Claim C4, as the code has it. For a generic file that is amalgamated (a generic file
  other than an aggregator \<^verbatim>\<open>dependencies.h\<close>): including it while the pair of the file
  and the implementation is in \<^verbatim>\<open>found_generic_includes\<close> is fatal, with the error of
  line 253; including it while no implementation is defined is fatal (with the error of
  line 254 when the pair is not in the list); an include that succeeds had an
  implementation, found the pair not in the list, and leaves it in the list; and the
  list only grows and stays free of duplicates through the lines of a file, so that the
  file is expanded at most once for each implementation.
\<close>

theorem generic_file_once_per_implementation:
  assumes "is_generic f" "is_amalgamated E f (repository a) = Inr (True, repo)"
  shows "((f, implementation a) \<in> set (found_generic_includes a) \<longrightarrow>
            maybe_write_file n E f i l a = Inl (GenericIncludedTwice f i (implementation a)))
       \<and> (\<not> truthy (implementation a) \<longrightarrow> (\<exists>e. maybe_write_file n E f i l a = Inl e))
       \<and> (\<not> truthy (implementation a) \<and> (f, implementation a) \<notin> set (found_generic_includes a) \<longrightarrow>
            maybe_write_file n E f i l a = Inl (NoImplementation f))
       \<and> (maybe_write_file n E f i l a = Inr a' \<longrightarrow>
            truthy (implementation a) \<and> (f, implementation a) \<notin> set (found_generic_includes a) \<and>
            (f, implementation a) \<in> set (found_generic_includes a') \<and>
            (distinct (found_generic_includes a) \<longrightarrow> distinct (found_generic_includes a')))
       \<and> (write_lines n E g ls a = Inr a' \<longrightarrow>
            set (found_generic_includes a) \<subseteq> set (found_generic_includes a') \<and>
            (distinct (found_generic_includes a) \<longrightarrow> distinct (found_generic_includes a')))"
proof -
  note s = seen_before_generic [OF assms(2,1)]
  have p1: "maybe_write_file n E f i l a = Inl (GenericIncludedTwice f i (implementation a))"
    if "(f, implementation a) \<in> set (found_generic_includes a)"
    using that by (simp add: maybe_write_file.simps s)
  have p3: "maybe_write_file n E f i l a = Inl (NoImplementation f)"
    if "\<not> truthy (implementation a)" "(f, implementation a) \<notin> set (found_generic_includes a)"
    using that by (simp add: maybe_write_file.simps s)
  have p2: "\<exists>e. maybe_write_file n E f i l a = Inl e" if "\<not> truthy (implementation a)"
    using p1 p3 that by blast
  have p4: "truthy (implementation a) \<and> (f, implementation a) \<notin> set (found_generic_includes a) \<and>
            (f, implementation a) \<in> set (found_generic_includes a') \<and>
            (distinct (found_generic_includes a) \<longrightarrow> distinct (found_generic_includes a'))"
    if m: "maybe_write_file n E f i l a = Inr a'"
  proof -
    from m p1 have n1: "(f, implementation a) \<notin> set (found_generic_includes a)" by auto
    from m p3 n1 have n2: "truthy (implementation a)" by auto
    from m show ?thesis
    proof (cases rule: maybe_write_file_Inr)
      case (skipped a1)
      with s n1 n2 show ?thesis by simp
    next
      case (written a1 s' a2)
      from written(1) s n1 n2 have "(f, implementation a) \<in> set (found_generic_includes a1)"
        by auto
      with written(2) have "(f, implementation a) \<in> set (found_generic_includes
          (write_out (''/* including '' @ s' @ '': '' @ l @ '' */'') a2))"
        by (auto dest!: file_to_str_seen)
      with writer_seen_grows(1) [OF written(3)]
      have "(f, implementation a) \<in> set (found_generic_includes a')"
        by (auto simp: seen_grows_def dest: set_mono_prefix)
      with n1 n2 writer_seen_grows(3) [OF m] show ?thesis
        by (auto simp: seen_grows_def)
    qed
  qed
  have p5: "set (found_generic_includes a) \<subseteq> set (found_generic_includes a') \<and>
            (distinct (found_generic_includes a) \<longrightarrow> distinct (found_generic_includes a'))"
    if "write_lines n E g ls a = Inr a'"
    using writer_seen_grows(2) [OF that] by (auto simp: seen_grows_def dest: set_mono_prefix)
  from p1 p2 p3 p4 p5 show ?thesis by blast
qed

theorem generic_file_once_per_implementation_witness:
  "is_generic ''generic/amalgamated.h''
   \<and> is_amalgamated tree_generic_twice ''generic/amalgamated.h''
        (repository amalgamator_generic_seen) = Inr (True, repository amalgamator_generic_seen)
   \<and> (''generic/amalgamated.h'', implementation amalgamator_generic_seen)
        \<in> set (found_generic_includes amalgamator_generic_seen)
   \<and> maybe_write_file 1 tree_generic_twice ''generic/amalgamated.h'' (Some ''simdjson.h'')
        ''#include \"generic/amalgamated.h\"'' amalgamator_generic_seen
        = Inl (GenericIncludedTwice ''generic/amalgamated.h'' (Some ''simdjson.h'') (Some ''arm64''))
   \<and> maybe_write_file 1 tree_generic_twice ''generic/amalgamated.h'' (Some ''simdjson.h'')
        ''#include \"generic/amalgamated.h\"'' amalgamator_generic_haswell
        = Inr amalgamator_generic_written
   \<and> (''generic/amalgamated.h'', Some ''haswell'')
        \<in> set (found_generic_includes amalgamator_generic_written)
   \<and> distinct (found_generic_includes amalgamator_generic_written)
   \<and> amalgamate 3 tree_generic_twice ''simdjson.h'' ''2024-01-01''
        = Inl (GenericIncludedTwice ''generic/amalgamated.h'' (Some ''simdjson.h'') (Some ''arm64''))"
proof -
  have h1: "is_generic ''generic/amalgamated.h''"
    by code_simp
  have h2: "is_amalgamated tree_generic_twice ''generic/amalgamated.h''
        (repository amalgamator_generic_seen) = Inr (True, repository amalgamator_generic_seen)"
    by code_simp
  have h3: "(''generic/amalgamated.h'', implementation amalgamator_generic_seen)
        \<in> set (found_generic_includes amalgamator_generic_seen)"
    by code_simp
  have h4: "implementation amalgamator_generic_seen = Some ''arm64''"
    by code_simp
  have h5: "is_amalgamated tree_generic_twice ''generic/amalgamated.h''
        (repository amalgamator_generic_haswell) = Inr (True, repository amalgamator_generic_seen)"
    by code_simp
  have h6: "maybe_write_file 1 tree_generic_twice ''generic/amalgamated.h'' (Some ''simdjson.h'')
        ''#include \"generic/amalgamated.h\"'' amalgamator_generic_haswell
        = Inr amalgamator_generic_written"
    by code_simp
  have h7: "implementation amalgamator_generic_haswell = Some ''haswell''"
    by code_simp
  have h8: "distinct (found_generic_includes amalgamator_generic_haswell)"
    by code_simp
  have h9: "amalgamate 3 tree_generic_twice ''simdjson.h'' ''2024-01-01''
        = Inl (GenericIncludedTwice ''generic/amalgamated.h'' (Some ''simdjson.h'') (Some ''arm64''))"
    by code_simp
  from generic_file_once_per_implementation [OF h1 h2, of 1 "Some ''simdjson.h''"
      "''#include \"generic/amalgamated.h\"''"] h3
  have c1: "maybe_write_file 1 tree_generic_twice ''generic/amalgamated.h'' (Some ''simdjson.h'')
        ''#include \"generic/amalgamated.h\"'' amalgamator_generic_seen
        = Inl (GenericIncludedTwice ''generic/amalgamated.h'' (Some ''simdjson.h'') (Some ''arm64''))"
    unfolding h4 by blast
  from generic_file_once_per_implementation [OF h1 h5, of 1 "Some ''simdjson.h''"
      "''#include \"generic/amalgamated.h\"''" amalgamator_generic_written] h6 h8
  have c2: "(''generic/amalgamated.h'', Some ''haswell'')
        \<in> set (found_generic_includes amalgamator_generic_written)
      \<and> distinct (found_generic_includes amalgamator_generic_written)"
    unfolding h7 by blast
  from h1 h2 h3 h6 h9 c1 c2 show ?thesis by blast
qed

text \<open>
  Where the claim fails as it is written (for every generic file, expanding it with no
  implementation defined is fatal, and so is a second include under the same
  implementation). \<^verbatim>\<open>generic/dependencies.h\<close> is generic by its path, but an aggregator is
  a free-dependency file (line 95), so \<^verbatim>\<open>maybe_write_file\<close> treats it as one: it is
  expanded with no implementation defined, and its second include is skipped as a
  duplicate.
\<close>

theorem generic_aggregator_written_without_implementation:
  "amalgamate 2 tree_generic_aggregator_twice ''simdjson.h'' ''2024-01-01'' =
     Inr [''/* auto-generated on 2024-01-01. Do not edit! */'',
          ''/* including simdjson.h:  */'',
          ''/* begin file simdjson.h */'',
          ''/* including generic/dependencies.h: #include \"generic/dependencies.h\" */'',
          ''/* begin file generic/dependencies.h */'',
          ''int x;'',
          ''/* end file generic/dependencies.h */'',
          ''/* skipped duplicate #include \"generic/dependencies.h\" */'',
          ''/* end file simdjson.h */'']"
  by code_simp

subsection \<open>Replacing the placeholder\<close>

lemma re_sub_plain: "CHR 0x5C \<notin> set x \<Longrightarrow> re_sub t x l = Inr (replace_placeholder x l)"
  by (simp add: re_sub_def sub_token_replace)

lemma uses_implementation_exclusive:
  assumes "uses_implementation l"
  shows "\<not> define_amalgamated l" "\<not> undef_amalgamated l"
  using assms define_amalgamated_exclusive(6) undef_amalgamated_exclusive(6) by blast+

lemma amalgamated_line_other:
  "\<not> define_amalgamated l \<Longrightarrow> \<not> undef_amalgamated l \<Longrightarrow> amalgamated_line E f l a = Inr a"
  by (simp add: amalgamated_line_def)

text \<open>
  The lines 342-361 for a line that holds the placeholder. Take a line that the loop
  meets outside the editor-only region, that is no include and no definition or
  \<^verbatim>\<open>#undef\<close> of \<^verbatim>\<open>SIMDJSON_IMPLEMENTATION\<close>, and that holds the placeholder. In a file
  other than \<^verbatim>\<open>simdjson/implementation_detection.h\<close>: if the implementation is \<open>x\<close>, and
  \<open>x\<close> holds no backslash, the line goes on with every occurrence of the placeholder
  replaced by \<open>x\<close>; the line so replaced is then looked at as a definition or \<^verbatim>\<open>#undef\<close>
  of the flag \<^verbatim>\<open>SIMDJSON_AMALGAMATED\<close>, and is printed unless that fails; when it is
  neither, it is printed and nothing else changes. If no implementation is defined the
  run fails with the error of line 344. In \<^verbatim>\<open>simdjson/implementation_detection.h\<close> the
  line is printed as it is.
\<close>

lemma placeholder_substitution:
  assumes "\<not> editor_only_region a" "\<not> ifndef_amalgamated line" "\<not> endif_amalgamated line"
    "included line = None" "define_implementation line = None" "\<not> undef_implementation line"
    "uses_implementation line"
  shows "(file \<noteq> IMPLEMENTATION_DETECTION_H \<and> implementation a = Some x \<and> x \<noteq> [] \<and>
            CHR 0x5C \<notin> set x \<longrightarrow>
          write_lines n E file (line # lines) a =
            and_then (amalgamated_line E file (replace_placeholder x line) a)
              (\<lambda>a2. write_lines n E file lines (write_out (replace_placeholder x line) a2)))
       \<and> (file \<noteq> IMPLEMENTATION_DETECTION_H \<and> implementation a = Some x \<and> x \<noteq> [] \<and>
            CHR 0x5C \<notin> set x \<and> \<not> define_amalgamated (replace_placeholder x line) \<and>
            \<not> undef_amalgamated (replace_placeholder x line) \<longrightarrow>
          write_lines n E file [line] a = Inr (write_out (replace_placeholder x line) a))
       \<and> (file \<noteq> IMPLEMENTATION_DETECTION_H \<and> \<not> truthy (implementation a) \<longrightarrow>
          write_lines n E file (line # lines) a = Inl (UseWhileNotDefined file line))
       \<and> (file = IMPLEMENTATION_DETECTION_H \<longrightarrow>
          write_lines n E file [line] a = Inr (write_out line a))"
proof -
  have w: "write_lines n E file (line # ls) a =
      and_then (other_line E file line a) (\<lambda>a2. write_lines n E file ls a2)" for ls
    using assms(1-4) by (rule write_lines_other)
  have p1: "write_lines n E file (line # ls) a =
            and_then (amalgamated_line E file (replace_placeholder x line) a)
              (\<lambda>a2. write_lines n E file ls (write_out (replace_placeholder x line) a2))"
    if "file \<noteq> IMPLEMENTATION_DETECTION_H" "implementation a = Some x" "x \<noteq> []"
      "CHR 0x5C \<notin> set x" for ls
  proof -
    from that assms(5-7)
    have "other_line E file line a =
        and_then (amalgamated_line E file (replace_placeholder x line) a)
          (\<lambda>a2. Inr (write_out (replace_placeholder x line) a2))"
      by (simp add: other_line_def implementation_line_def truthy_def str_of_def re_sub_plain
          and_then_def split: sum.splits)
    with w [of ls] show ?thesis
      by (cases "amalgamated_line E file (replace_placeholder x line) a") simp_all
  qed
  have p2: "write_lines n E file [line] a = Inr (write_out (replace_placeholder x line) a)"
    if "file \<noteq> IMPLEMENTATION_DETECTION_H" "implementation a = Some x" "x \<noteq> []"
      "CHR 0x5C \<notin> set x" "\<not> define_amalgamated (replace_placeholder x line)"
      "\<not> undef_amalgamated (replace_placeholder x line)"
    using p1 [OF that(1-4), of "[]"] amalgamated_line_other [OF that(5,6)] by simp
  have p3: "write_lines n E file (line # lines) a = Inl (UseWhileNotDefined file line)"
    if "file \<noteq> IMPLEMENTATION_DETECTION_H" "\<not> truthy (implementation a)"
  proof -
    from that assms(5-7) have "other_line E file line a = Inl (UseWhileNotDefined file line)"
      by (simp add: other_line_def implementation_line_def)
    with w [of lines] show ?thesis by simp
  qed
  have p4: "write_lines n E file [line] a = Inr (write_out line a)"
    if "file = IMPLEMENTATION_DETECTION_H"
  proof -
    from that assms(5-7) uses_implementation_exclusive [OF assms(7)]
    have "other_line E file line a = Inr (write_out line a)"
      by (simp add: other_line_def implementation_line_def amalgamated_line_other)
    with w [of "[]"] show ?thesis by simp
  qed
  from p1 [of lines] p2 p3 p4 show ?thesis by blast
qed

text \<open>
  The lemma at work: with the implementation \<^verbatim>\<open>arm64\<close> both occurrences in a line are
  replaced, and a longer name that starts with the placeholder is left alone; with no
  implementation defined the line is fatal; in the detection file it is printed as it
  is.
\<close>

lemma placeholder_substitution_example:
  "\<not> editor_only_region amalgamator_arm64
   \<and> \<not> ifndef_amalgamated ''SIMDJSON_IMPLEMENTATION::f(SIMDJSON_IMPLEMENTATION, SIMDJSON_IMPLEMENTATION_X);''
   \<and> \<not> endif_amalgamated ''SIMDJSON_IMPLEMENTATION::f(SIMDJSON_IMPLEMENTATION, SIMDJSON_IMPLEMENTATION_X);''
   \<and> included ''SIMDJSON_IMPLEMENTATION::f(SIMDJSON_IMPLEMENTATION, SIMDJSON_IMPLEMENTATION_X);'' = None
   \<and> define_implementation ''SIMDJSON_IMPLEMENTATION::f(SIMDJSON_IMPLEMENTATION, SIMDJSON_IMPLEMENTATION_X);'' = None
   \<and> \<not> undef_implementation ''SIMDJSON_IMPLEMENTATION::f(SIMDJSON_IMPLEMENTATION, SIMDJSON_IMPLEMENTATION_X);''
   \<and> uses_implementation ''SIMDJSON_IMPLEMENTATION::f(SIMDJSON_IMPLEMENTATION, SIMDJSON_IMPLEMENTATION_X);''
   \<and> ''simdjson.h'' \<noteq> IMPLEMENTATION_DETECTION_H
   \<and> implementation amalgamator_arm64 = Some ''arm64''
   \<and> CHR 0x5C \<notin> set ''arm64''
   \<and> replace_placeholder ''arm64''
        ''SIMDJSON_IMPLEMENTATION::f(SIMDJSON_IMPLEMENTATION, SIMDJSON_IMPLEMENTATION_X);''
        = ''arm64::f(arm64, SIMDJSON_IMPLEMENTATION_X);''
   \<and> write_lines 0 tree_arm64_twice ''simdjson.h''
        [''SIMDJSON_IMPLEMENTATION::f(SIMDJSON_IMPLEMENTATION, SIMDJSON_IMPLEMENTATION_X);'']
        amalgamator_arm64
        = Inr (write_out ''arm64::f(arm64, SIMDJSON_IMPLEMENTATION_X);'' amalgamator_arm64)
   \<and> \<not> editor_only_region amalgamator_in_header
   \<and> \<not> truthy (implementation amalgamator_in_header)
   \<and> write_lines 0 tree_arm64_twice ''simdjson.h''
        [''SIMDJSON_IMPLEMENTATION::f(SIMDJSON_IMPLEMENTATION, SIMDJSON_IMPLEMENTATION_X);'',
         ''int x;'']
        amalgamator_in_header
        = Inl (UseWhileNotDefined ''simdjson.h''
            ''SIMDJSON_IMPLEMENTATION::f(SIMDJSON_IMPLEMENTATION, SIMDJSON_IMPLEMENTATION_X);'')
   \<and> write_lines 0 tree_arm64_twice IMPLEMENTATION_DETECTION_H
        [''SIMDJSON_IMPLEMENTATION::f(SIMDJSON_IMPLEMENTATION, SIMDJSON_IMPLEMENTATION_X);'']
        amalgamator_arm64
        = Inr (write_out
            ''SIMDJSON_IMPLEMENTATION::f(SIMDJSON_IMPLEMENTATION, SIMDJSON_IMPLEMENTATION_X);''
            amalgamator_arm64)"
proof -
  let ?l = "''SIMDJSON_IMPLEMENTATION::f(SIMDJSON_IMPLEMENTATION, SIMDJSON_IMPLEMENTATION_X);''"
  have h1: "\<not> editor_only_region amalgamator_arm64"
    by code_simp
  have h2: "\<not> ifndef_amalgamated ?l"
    by code_simp
  have h3: "\<not> endif_amalgamated ?l"
    by code_simp
  have h4: "included ?l = None"
    by code_simp
  have h5: "define_implementation ?l = None"
    by code_simp
  have h6: "\<not> undef_implementation ?l"
    by code_simp
  have h7: "uses_implementation ?l"
    by code_simp
  have h8: "''simdjson.h'' \<noteq> IMPLEMENTATION_DETECTION_H"
    by code_simp
  have h9: "implementation amalgamator_arm64 = Some ''arm64''"
    by code_simp
  have h10: "CHR 0x5C \<notin> set ''arm64''"
    by code_simp
  have h11: "replace_placeholder ''arm64'' ?l = ''arm64::f(arm64, SIMDJSON_IMPLEMENTATION_X);''"
    by code_simp
  have h12: "\<not> define_amalgamated ''arm64::f(arm64, SIMDJSON_IMPLEMENTATION_X);''"
    by code_simp
  have h13: "\<not> undef_amalgamated ''arm64::f(arm64, SIMDJSON_IMPLEMENTATION_X);''"
    by code_simp
  have h14: "\<not> editor_only_region amalgamator_in_header"
    by code_simp
  have h15: "\<not> truthy (implementation amalgamator_in_header)"
    by code_simp
  have h16: "''arm64'' \<noteq> []"
    by simp
  from placeholder_substitution [OF h1 h2 h3 h4 h5 h6 h7, of "''simdjson.h''" "''arm64''"
      0 tree_arm64_twice "[]"] h8 h9 h10 h12 h13 h16
  have c1: "write_lines 0 tree_arm64_twice ''simdjson.h'' [?l] amalgamator_arm64
        = Inr (write_out ''arm64::f(arm64, SIMDJSON_IMPLEMENTATION_X);'' amalgamator_arm64)"
    unfolding h11 by blast
  from placeholder_substitution [OF h14 h2 h3 h4 h5 h6 h7, of "''simdjson.h''" _
      0 tree_arm64_twice "[''int x;'']"] h8 h15
  have c2: "write_lines 0 tree_arm64_twice ''simdjson.h'' [?l, ''int x;''] amalgamator_in_header
        = Inl (UseWhileNotDefined ''simdjson.h'' ?l)"
    by blast
  from placeholder_substitution [OF h1 h2 h3 h4 h5 h6 h7, of IMPLEMENTATION_DETECTION_H _
      0 tree_arm64_twice "[]"]
  have c3: "write_lines 0 tree_arm64_twice IMPLEMENTATION_DETECTION_H [?l] amalgamator_arm64
        = Inr (write_out ?l amalgamator_arm64)"
    by blast
  from h1 h2 h3 h4 h5 h6 h7 h8 h9 h10 h11 h14 h15 c1 c2 c3 show ?thesis by blast
qed

text \<open>
  Claim C5. A line that holds the placeholder, met outside the directives while an
  implementation \<open>x\<close> is defined, is printed with every occurrence of the placeholder
  replaced by \<open>x\<close>; the comment of line 343 says that the line is copied. The code
  assigns the replaced text to \<^verbatim>\<open>line\<close> (line 345) and then matches the directives of
  the flag on it (lines 348-359), so a replaced line that reads as such a directive is
  taken as one. In \<^verbatim>\<open>simdjson.h\<close> here the flag is defined, the implementation is
  defined as \<^verbatim>\<open>SIMDJSON_AMALGAMATED\<close>, and the third line,
  \<^verbatim>\<open>#define SIMDJSON_IMPLEMENTATION\<close>, is no definition for line 330 (it has no value), so
  it is a line that holds the placeholder. Replaced, it reads
  \<^verbatim>\<open>#define SIMDJSON_AMALGAMATED\<close>, line 348 takes it as a second definition of the flag,
  and the run fails with the error of line 351; the line is not printed.
\<close>

theorem placeholder_line_not_printed:
  "amalgamate 1 tree_placeholder_becomes_flag ''simdjson.h'' ''2024-01-01''
     = Inl (Redefines ''simdjson.h'')"
  by code_simp

subsection \<open>Cyclic includes\<close>

text \<open>
  Claim C6, as the code has it. Expanding a file that is on the include stack is fatal,
  with an error that carries the whole include stack and the file. An include reaches
  that point when the file is amalgamated and not generic, and when it is amalgamated
  and generic and is included under an implementation under which it was not yet
  included. An include of a free-dependency file that is in \<^verbatim>\<open>found_includes\<close> is
  skipped as a duplicate instead, also when the file is on the include stack.
\<close>

theorem cyclic_include_is_fatal:
  assumes "f \<in> set (include_stack a)"
  shows "write_file (Suc n) E f a = Inl (CyclicInclude (include_stack a) f)
       \<and> (is_amalgamated E f (repository a) = Inr (True, repo) \<and> \<not> is_generic f \<longrightarrow>
            maybe_write_file (Suc n) E f i l a = Inl (CyclicInclude (include_stack a) f))
       \<and> (is_amalgamated E f (repository a) = Inr (True, repo) \<and> is_generic f \<and>
          truthy (implementation a) \<and> (f, implementation a) \<notin> set (found_generic_includes a) \<longrightarrow>
            maybe_write_file (Suc n) E f i l a = Inl (CyclicInclude (include_stack a) f))
       \<and> (free_dependency_path f = None \<and> f \<in> found_includes a \<longrightarrow>
            maybe_write_file (Suc n) E f i l a =
              Inr (write_out (''/* skipped duplicate '' @ l @ '' */'') a))"
proof -
  have w: "write_file (Suc n) E f b = Inl (CyclicInclude (include_stack a) f)"
    if "include_stack b = include_stack a" for b
    using assms that by (simp add: write_file.simps(2) begin_file_cyclic)
  have p2: "maybe_write_file (Suc n) E f i l a = Inl (CyclicInclude (include_stack a) f)"
    if am: "is_amalgamated E f (repository a) = Inr (True, repo)" and g: "\<not> is_generic f"
    by (simp add: maybe_write_file.simps seen_before_amalgamated [OF am g] file_to_str_def g w)
  have p3: "maybe_write_file (Suc n) E f i l a = Inl (CyclicInclude (include_stack a) f)"
    if am: "is_amalgamated E f (repository a) = Inr (True, repo)" and g: "is_generic f"
      and t: "truthy (implementation a)"
      and n: "(f, implementation a) \<notin> set (found_generic_includes a)"
  proof -
    from am have "is_amalgamated E f repo = Inr (True, repo)"
      by (rule is_amalgamated_idem)
    with t n g show ?thesis
      by (simp add: maybe_write_file.simps seen_before_generic [OF am g] file_to_str_def w)
  qed
  have p4: "maybe_write_file (Suc n) E f i l a =
              Inr (write_out (''/* skipped duplicate '' @ l @ '' */'') a)"
    if "free_dependency_path f = None" "f \<in> found_includes a"
    using that by (simp add: maybe_write_file.simps seen_before_free)
  from w [of a] p2 p3 p4 show ?thesis by blast
qed

theorem cyclic_include_is_fatal_witness:
  "''simdjson/arm64.h'' \<in> set (include_stack amalgamator_in_cycle)
   \<and> is_amalgamated tree_amalgamated_cycle ''simdjson/arm64.h'' (repository amalgamator_in_cycle)
        = Inr (True, repository amalgamator_in_cycle)
   \<and> \<not> is_generic ''simdjson/arm64.h''
   \<and> write_file 1 tree_amalgamated_cycle ''simdjson/arm64.h'' amalgamator_in_cycle
        = Inl (CyclicInclude [''simdjson.h'', ''simdjson/arm64.h'', ''simdjson/arm64/a.h'']
                 ''simdjson/arm64.h'')
   \<and> maybe_write_file 1 tree_amalgamated_cycle ''simdjson/arm64.h'' (Some ''simdjson/arm64/a.h'')
        ''#include \"simdjson/arm64.h\"'' amalgamator_in_cycle
        = Inl (CyclicInclude [''simdjson.h'', ''simdjson/arm64.h'', ''simdjson/arm64/a.h'']
                 ''simdjson/arm64.h'')
   \<and> amalgamate 4 tree_amalgamated_cycle ''simdjson.h'' ''2024-01-01''
        = Inl (CyclicInclude [''simdjson.h'', ''simdjson/arm64.h'', ''simdjson/arm64/a.h'']
                 ''simdjson/arm64.h'')"
proof -
  have h1: "''simdjson/arm64.h'' \<in> set (include_stack amalgamator_in_cycle)"
    by code_simp
  have h2: "is_amalgamated tree_amalgamated_cycle ''simdjson/arm64.h''
        (repository amalgamator_in_cycle) = Inr (True, repository amalgamator_in_cycle)"
    by code_simp
  have h3: "\<not> is_generic ''simdjson/arm64.h''"
    by code_simp
  have h4: "include_stack amalgamator_in_cycle
        = [''simdjson.h'', ''simdjson/arm64.h'', ''simdjson/arm64/a.h'']"
    by code_simp
  have h5: "amalgamate 4 tree_amalgamated_cycle ''simdjson.h'' ''2024-01-01''
        = Inl (CyclicInclude [''simdjson.h'', ''simdjson/arm64.h'', ''simdjson/arm64/a.h'']
                 ''simdjson/arm64.h'')"
    by code_simp
  from cyclic_include_is_fatal [OF h1, of 0 tree_amalgamated_cycle
      "repository amalgamator_in_cycle" "Some ''simdjson/arm64/a.h''"
      "''#include \"simdjson/arm64.h\"''"] h2 h3
  have c: "write_file 1 tree_amalgamated_cycle ''simdjson/arm64.h'' amalgamator_in_cycle
        = Inl (CyclicInclude [''simdjson.h'', ''simdjson/arm64.h'', ''simdjson/arm64/a.h'']
                 ''simdjson/arm64.h'')
   \<and> maybe_write_file 1 tree_amalgamated_cycle ''simdjson/arm64.h'' (Some ''simdjson/arm64/a.h'')
        ''#include \"simdjson/arm64.h\"'' amalgamator_in_cycle
        = Inl (CyclicInclude [''simdjson.h'', ''simdjson/arm64.h'', ''simdjson/arm64/a.h'']
                 ''simdjson/arm64.h'')"
    unfolding h4 by simp
  from h1 h2 h3 h5 c show ?thesis by blast
qed

text \<open>
  Where the claim fails as it is written (every tree with a cycle in its include graph
  fails with a cyclic-include error). \<^verbatim>\<open>simdjson.h\<close> includes \<^verbatim>\<open>a.h\<close>, which includes
  \<^verbatim>\<open>simdjson.h\<close> while \<^verbatim>\<open>simdjson.h\<close> is on the include stack. Both are free-dependency
  files; \<^verbatim>\<open>simdjson.h\<close> is in \<^verbatim>\<open>found_includes\<close> since it was first written, so line 261
  skips the second include and the run completes.
\<close>

theorem free_dependency_cycle_completes:
  "amalgamate 2 tree_cycle ''simdjson.h'' ''2024-01-01'' =
     Inr [''/* auto-generated on 2024-01-01. Do not edit! */'',
          ''/* including simdjson.h:  */'',
          ''/* begin file simdjson.h */'',
          ''/* including a.h: #include \"a.h\" */'',
          ''/* begin file a.h */'',
          ''/* skipped duplicate #include \"simdjson.h\" */'',
          ''/* end file a.h */'',
          ''/* end file simdjson.h */'']"
  by code_simp

subsection \<open>The amalgamated flag\<close>

text \<open>
  Claim C7, as the code has it. The flag \<^verbatim>\<open>SIMDJSON_AMALGAMATED\<close> is defined and
  undefined in strict alternation. For a line of a file that the loop meets outside the
  editor-only region: a definition of the flag while the flag is defined is fatal (in a
  free-dependency file, with the error that the file redefines the flag); an \<^verbatim>\<open>#undef\<close>
  of the flag while it is not defined is fatal (in a free-dependency file, with the
  error that the file undefines it without defining it); every definition that succeeds
  finds the flag undefined, defines it and empties the set
  \<^verbatim>\<open>found_includes_per_amalgamation\<close>; every \<^verbatim>\<open>#undef\<close> that succeeds finds the flag
  defined and undefines it.
\<close>

theorem amalgamated_flag_sequencing:
  assumes "\<not> editor_only_region a"
  shows "(define_amalgamated line \<and> amalgamated_defined a \<longrightarrow>
            (\<exists>e. write_lines n E file (line # lines) a = Inl e) \<and>
            (free_dependency_path file = None \<longrightarrow>
               write_lines n E file (line # lines) a = Inl (Redefines file)))
       \<and> (undef_amalgamated line \<and> \<not> amalgamated_defined a \<longrightarrow>
            (\<exists>e. write_lines n E file (line # lines) a = Inl e) \<and>
            (free_dependency_path file = None \<longrightarrow>
               write_lines n E file (line # lines) a = Inl (UndefinesWithoutDefine file)))
       \<and> (define_amalgamated line \<and> write_lines n E file [line] a = Inr a' \<longrightarrow>
            \<not> amalgamated_defined a \<and> amalgamated_defined a' \<and>
            found_includes_per_amalgamation a' = {})
       \<and> (undef_amalgamated line \<and> write_lines n E file [line] a = Inr a' \<longrightarrow>
            amalgamated_defined a \<and> \<not> amalgamated_defined a')"
proof -
  have d1: "\<exists>e. write_lines n E file (line # lines) a = Inl e"
    if "define_amalgamated line" "amalgamated_defined a"
    using write_lines_flag [OF assms, of line n E "file" lines] amalgamated_line_define(2) [OF that]
    by (metis and_then_Inl that(1))
  have d2: "write_lines n E file (line # lines) a = Inl (Redefines file)"
    if "define_amalgamated line" "amalgamated_defined a" "free_dependency_path file = None"
    using write_lines_flag [OF assms, of line n E "file" lines] amalgamated_line_define(3) [OF that]
    by (simp add: that(1))
  have u1: "\<exists>e. write_lines n E file (line # lines) a = Inl e"
    if "undef_amalgamated line" "\<not> amalgamated_defined a"
    using write_lines_flag [OF assms, of line n E "file" lines] amalgamated_line_undef(2) [OF that]
    by (metis and_then_Inl that(1))
  have u2: "write_lines n E file (line # lines) a = Inl (UndefinesWithoutDefine file)"
    if "undef_amalgamated line" "\<not> amalgamated_defined a" "free_dependency_path file = None"
    using write_lines_flag [OF assms, of line n E "file" lines] amalgamated_line_undef(3) [OF that]
    by (simp add: that(1))
  have d3: "\<not> amalgamated_defined a \<and> amalgamated_defined a' \<and> found_includes_per_amalgamation a' = {}"
    if "define_amalgamated line" "write_lines n E file [line] a = Inr a'"
  proof -
    from that write_lines_flag [OF assms, of line n E "file" "[]"]
    obtain a2 where "amalgamated_line E file line a = Inr a2" "a' = write_out line a2"
      by (auto simp: and_then_eq_Inr)
    with amalgamated_line_define(1) [OF that(1), of E "file" a a2] show ?thesis by simp
  qed
  have u3: "amalgamated_defined a \<and> \<not> amalgamated_defined a'"
    if "undef_amalgamated line" "write_lines n E file [line] a = Inr a'"
  proof -
    from that write_lines_flag [OF assms, of line n E "file" "[]"]
    obtain a2 where "amalgamated_line E file line a = Inr a2" "a' = write_out line a2"
      by (auto simp: and_then_eq_Inr)
    with amalgamated_line_undef(1) [OF that(1), of E "file" a a2] show ?thesis by simp
  qed
  from d1 d2 u1 u2 d3 u3 show ?thesis by blast
qed

theorem amalgamated_flag_sequencing_witness:
  "\<not> editor_only_region amalgamator_flag_defined
   \<and> define_amalgamated ''#define SIMDJSON_AMALGAMATED''
   \<and> amalgamated_defined amalgamator_flag_defined
   \<and> free_dependency_path ''simdjson.h'' = None
   \<and> write_lines 0 tree_arm64_twice ''simdjson.h''
        [''#define SIMDJSON_AMALGAMATED'', ''int x;''] amalgamator_flag_defined
        = Inl (Redefines ''simdjson.h'')
   \<and> \<not> editor_only_region amalgamator_in_header
   \<and> undef_amalgamated ''#undef SIMDJSON_AMALGAMATED''
   \<and> \<not> amalgamated_defined amalgamator_in_header
   \<and> write_lines 0 tree_arm64_twice ''simdjson.h''
        [''#undef SIMDJSON_AMALGAMATED'', ''int x;''] amalgamator_in_header
        = Inl (UndefinesWithoutDefine ''simdjson.h'')
   \<and> write_lines 0 tree_arm64_twice ''simdjson.h'' [''#define SIMDJSON_AMALGAMATED'']
        amalgamator_in_header
        = Inr (write_out ''#define SIMDJSON_AMALGAMATED''
                (write_out ''/* defining SIMDJSON_AMALGAMATED */''
                  (amalgamator_flag_defined\<lparr>found_includes_per_amalgamation := {}\<rparr>)))
   \<and> found_includes_per_amalgamation amalgamator_in_header \<noteq> {}
   \<and> found_includes_per_amalgamation
        (write_out ''#define SIMDJSON_AMALGAMATED''
          (write_out ''/* defining SIMDJSON_AMALGAMATED */''
            (amalgamator_flag_defined\<lparr>found_includes_per_amalgamation := {}\<rparr>))) = {}"
proof -
  have h1: "\<not> editor_only_region amalgamator_flag_defined"
    by code_simp
  have h2: "define_amalgamated ''#define SIMDJSON_AMALGAMATED''"
    by code_simp
  have h3: "amalgamated_defined amalgamator_flag_defined"
    by code_simp
  have h4: "free_dependency_path ''simdjson.h'' = None"
    by code_simp
  have h5: "\<not> editor_only_region amalgamator_in_header"
    by code_simp
  have h6: "undef_amalgamated ''#undef SIMDJSON_AMALGAMATED''"
    by code_simp
  have h7: "\<not> amalgamated_defined amalgamator_in_header"
    by code_simp
  have h8: "write_lines 0 tree_arm64_twice ''simdjson.h'' [''#define SIMDJSON_AMALGAMATED'']
        amalgamator_in_header
        = Inr (write_out ''#define SIMDJSON_AMALGAMATED''
                (write_out ''/* defining SIMDJSON_AMALGAMATED */''
                  (amalgamator_flag_defined\<lparr>found_includes_per_amalgamation := {}\<rparr>)))"
    by code_simp
  have h9: "found_includes_per_amalgamation amalgamator_in_header \<noteq> {}"
    by code_simp
  from amalgamated_flag_sequencing [OF h1, of "''#define SIMDJSON_AMALGAMATED''" 0
      tree_arm64_twice "''simdjson.h''" "[''int x;'']"] h2 h3 h4
  have c1: "write_lines 0 tree_arm64_twice ''simdjson.h''
        [''#define SIMDJSON_AMALGAMATED'', ''int x;''] amalgamator_flag_defined
        = Inl (Redefines ''simdjson.h'')"
    by blast
  from amalgamated_flag_sequencing [OF h5, of "''#undef SIMDJSON_AMALGAMATED''" 0
      tree_arm64_twice "''simdjson.h''" "[''int x;'']"] h6 h7 h4
  have c2: "write_lines 0 tree_arm64_twice ''simdjson.h''
        [''#undef SIMDJSON_AMALGAMATED'', ''int x;''] amalgamator_in_header
        = Inl (UndefinesWithoutDefine ''simdjson.h'')"
    by blast
  from amalgamated_flag_sequencing [OF h5, of "''#define SIMDJSON_AMALGAMATED''" 0
      tree_arm64_twice "''simdjson.h''" _
      "write_out ''#define SIMDJSON_AMALGAMATED''
          (write_out ''/* defining SIMDJSON_AMALGAMATED */''
            (amalgamator_flag_defined\<lparr>found_includes_per_amalgamation := {}\<rparr>))"] h2 h8
  have c3: "found_includes_per_amalgamation
        (write_out ''#define SIMDJSON_AMALGAMATED''
          (write_out ''/* defining SIMDJSON_AMALGAMATED */''
            (amalgamator_flag_defined\<lparr>found_includes_per_amalgamation := {}\<rparr>))) = {}"
    by blast
  from h1 h2 h3 h4 h5 h6 h7 h8 h9 c1 c2 c3 show ?thesis by blast
qed

text \<open>
  Where the claim fails as it is written (a second definition of the flag while the flag
  is defined is fatal). \<^verbatim>\<open>simdjson.h\<close> defines the flag and includes
  \<^verbatim>\<open>simdjson/arm64.h\<close>, which defines the flag again inside its editor-only region. The
  lines 307-316 print every line of the region as a comment and go on to the next line,
  so the second definition is not looked at as a directive, and the run completes.
\<close>

theorem flag_defined_again_in_editor_only:
  "define_amalgamated ''#define SIMDJSON_AMALGAMATED''
   \<and> amalgamate 2 tree_flag_in_editor_only ''simdjson.h'' ''2024-01-01'' =
     Inr [''/* auto-generated on 2024-01-01. Do not edit! */'',
          ''/* including simdjson.h:  */'',
          ''/* begin file simdjson.h */'',
          ''/* defining SIMDJSON_AMALGAMATED */'',
          ''#define SIMDJSON_AMALGAMATED'',
          ''/* including simdjson/arm64.h: #include \"simdjson/arm64.h\" */'',
          ''/* begin file simdjson/arm64.h */'',
          ''/* amalgamation skipped (editor-only): #ifndef SIMDJSON_AMALGAMATED */'',
          ''/* amalgamation skipped (editor-only): #define SIMDJSON_AMALGAMATED */'',
          ''/* amalgamation skipped (editor-only): #endif // SIMDJSON_AMALGAMATED */'',
          ''/* end file simdjson/arm64.h */'',
          ''/* end file simdjson.h */'']"
  by code_simp

text \<open>
  Claim C9. The check of an aggregator asks for exact correspondence. When the direct
  includes of the aggregator hold a file that no file governed by it includes editor-only
  as a free-dependency file, the check is fatal; the error is the one of line 187, with
  the set of these files, whenever the assertion of line 183 (a missing file) has not
  ended the check before; and the check passes only if the direct includes are exactly
  the free-dependency files that the governed files include editor-only.
\<close>

theorem unnecessary_include_is_fatal:
  assumes "is_free_dependency_file self" "aggregators_known repo"
  shows "(set (includes_list (file_of repo self)) - snd ` set (required_includes repo self) \<noteq> {} \<longrightarrow>
            (\<exists>e. validate_free_dependency_file E self repo = Inl e))
       \<and> (set (includes_list (file_of repo self)) - snd ` set (required_includes repo self) \<noteq> {} \<and>
          find (\<lambda>(f, i). i \<notin> set (includes_list (file_of repo self))) (required_includes repo self)
            = None \<longrightarrow>
            validate_free_dependency_file E self repo =
              Inl (UnnecessaryIncludes self
                (set (includes_list (file_of repo self)) - snd ` set (required_includes repo self))))
       \<and> (validate_free_dependency_file E self repo = Inr repo' \<longrightarrow>
            repo' = repo \<and>
            set (includes_list (file_of repo self)) = snd ` set (required_includes repo self))"
proof -
  note v = validate_free_dependency_file_known [OF assms, of E]
  let ?extra = "set (includes_list (file_of repo self)) - snd ` set (required_includes repo self)"
  let ?find = "find (\<lambda>(f, i). i \<notin> set (includes_list (file_of repo self)))
      (required_includes repo self)"
  have p1: "\<exists>e. validate_free_dependency_file E self repo = Inl e" if "?extra \<noteq> {}"
    using that unfolding v by (cases ?find) auto
  have p2: "validate_free_dependency_file E self repo = Inl (UnnecessaryIncludes self ?extra)"
    if "?extra \<noteq> {}" "?find = None"
    using that unfolding v by simp
  have p3: "repo' = repo \<and>
      set (includes_list (file_of repo self)) = snd ` set (required_includes repo self)"
    if ok: "validate_free_dependency_file E self repo = Inr repo'"
  proof -
    from ok have n: "?find = None" and e: "?extra = {}" and r: "repo' = repo"
      unfolding v by (auto split: option.splits if_splits)
    from n have "\<forall>(f, i) \<in> set (required_includes repo self).
        i \<in> set (includes_list (file_of repo self))"
      by (auto simp: find_None_iff)
    then have "snd ` set (required_includes repo self) \<subseteq> set (includes_list (file_of repo self))"
      by auto
    with e r show ?thesis by auto
  qed
  from p1 p2 p3 show ?thesis by blast
qed

theorem unnecessary_include_is_fatal_witness:
  "is_free_dependency_file ''simdjson/generic/dependencies.h''
   \<and> aggregators_known repository_unnecessary
   \<and> set (includes_list (file_of repository_unnecessary ''simdjson/generic/dependencies.h''))
        - snd ` set (required_includes repository_unnecessary ''simdjson/generic/dependencies.h'')
        = {''x.h''}
   \<and> find (\<lambda>(f, i). i \<notin> set (includes_list
          (file_of repository_unnecessary ''simdjson/generic/dependencies.h'')))
        (required_includes repository_unnecessary ''simdjson/generic/dependencies.h'') = None
   \<and> validate_free_dependency_file tree_unnecessary ''simdjson/generic/dependencies.h''
        repository_unnecessary
        = Inl (UnnecessaryIncludes ''simdjson/generic/dependencies.h'' {''x.h''})
   \<and> aggregators_known repository_exact
   \<and> validate_free_dependency_file tree_unnecessary ''simdjson/generic/dependencies.h''
        repository_exact = Inr repository_exact
   \<and> set (includes_list (file_of repository_exact ''simdjson/generic/dependencies.h''))
        = snd ` set (required_includes repository_exact ''simdjson/generic/dependencies.h'')
   \<and> amalgamate 3 tree_unnecessary ''simdjson.h'' ''2024-01-01''
        = Inl (UnnecessaryIncludes ''simdjson/generic/dependencies.h'' {''x.h''})"
proof -
  have h1: "is_free_dependency_file ''simdjson/generic/dependencies.h''"
    by code_simp
  have h2: "aggregators_known repository_unnecessary"
    by code_simp
  have h3: "set (includes_list (file_of repository_unnecessary ''simdjson/generic/dependencies.h''))
        - snd ` set (required_includes repository_unnecessary ''simdjson/generic/dependencies.h'')
        = {''x.h''}"
    by code_simp
  have h4: "find (\<lambda>(f, i). i \<notin> set (includes_list
          (file_of repository_unnecessary ''simdjson/generic/dependencies.h'')))
        (required_includes repository_unnecessary ''simdjson/generic/dependencies.h'') = None"
    by code_simp
  have h5: "aggregators_known repository_exact"
    by code_simp
  have h6: "validate_free_dependency_file tree_unnecessary ''simdjson/generic/dependencies.h''
        repository_exact = Inr repository_exact"
    by code_simp
  have h7: "amalgamate 3 tree_unnecessary ''simdjson.h'' ''2024-01-01''
        = Inl (UnnecessaryIncludes ''simdjson/generic/dependencies.h'' {''x.h''})"
    by code_simp
  from unnecessary_include_is_fatal [OF h1 h2, of tree_unnecessary] h4
  have c1: "validate_free_dependency_file tree_unnecessary ''simdjson/generic/dependencies.h''
        repository_unnecessary
        = Inl (UnnecessaryIncludes ''simdjson/generic/dependencies.h'' {''x.h''})"
    unfolding h3 by simp
  from unnecessary_include_is_fatal [OF h1 h5, of tree_unnecessary repository_exact] h6
  have c2: "set (includes_list (file_of repository_exact ''simdjson/generic/dependencies.h''))
        = snd ` set (required_includes repository_exact ''simdjson/generic/dependencies.h'')"
    by blast
  from h1 h2 h3 h4 h5 h6 h7 c1 c2 show ?thesis by blast
qed

text \<open>
  Claim C10, as the code has it. A definition or an \<^verbatim>\<open>#undef\<close> of the flag
  \<^verbatim>\<open>SIMDJSON_AMALGAMATED\<close> that the loop meets outside the editor-only region is fatal
  unless the file is a free-dependency file: if the line is processed without an error
  the file has no aggregator, and in an amalgamated file the error is the one of line
  350 for a definition and the one of line 356 for an \<^verbatim>\<open>#undef\<close>.
\<close>

theorem amalgamated_flag_in_amalgamated_file:
  assumes "\<not> editor_only_region a" "define_amalgamated line \<or> undef_amalgamated line"
  shows "(write_lines n E file (line # lines) a = Inr a' \<longrightarrow> free_dependency_path file = None)
       \<and> (is_amalgamated E file (repository a) = Inr (True, repo) \<longrightarrow>
            write_lines n E file (line # lines) a =
              Inl (if define_amalgamated line then DefinedInAmalgamated
                   else UndefinedInAmalgamated))"
proof -
  note w = write_lines_flag [OF assms, of n E "file" lines]
  have p1: "free_dependency_path file = None" if "write_lines n E file (line # lines) a = Inr a'"
  proof -
    from that w obtain a2 where a2: "amalgamated_line E file line a = Inr a2"
      by (auto simp: and_then_eq_Inr)
    from assms(2) show ?thesis
    proof
      assume "define_amalgamated line"
      from amalgamated_line_define(1) [OF this a2] show ?thesis by simp
    next
      assume "undef_amalgamated line"
      from amalgamated_line_undef(1) [OF this a2] show ?thesis by simp
    qed
  qed
  have p2: "write_lines n E file (line # lines) a =
              Inl (if define_amalgamated line then DefinedInAmalgamated else UndefinedInAmalgamated)"
    if am: "is_amalgamated E file (repository a) = Inr (True, repo)"
  proof (cases "define_amalgamated line")
    case True
    from amalgamated_line_define(4) [OF True am] w True show ?thesis by simp
  next
    case False
    with assms(2) have u: "undef_amalgamated line" by simp
    from amalgamated_line_undef(4) [OF u am] w False show ?thesis by simp
  qed
  from p1 p2 show ?thesis by blast
qed

theorem amalgamated_flag_in_amalgamated_file_witness:
  "\<not> editor_only_region amalgamator_in_header
   \<and> (define_amalgamated ''#define SIMDJSON_AMALGAMATED''
        \<or> undef_amalgamated ''#define SIMDJSON_AMALGAMATED'')
   \<and> is_amalgamated tree_arm64_twice ''simdjson/arm64.h'' (repository amalgamator_in_header)
        = Inr (True, repository_two_files
                 @ [(''simdjson/generic/dependencies.h'', new_file ''include'')])
   \<and> write_lines 0 tree_arm64_twice ''simdjson/arm64.h''
        [''#define SIMDJSON_AMALGAMATED'', ''int x;''] amalgamator_in_header
        = Inl DefinedInAmalgamated
   \<and> write_lines 0 tree_arm64_twice ''simdjson.h''
        [''#define SIMDJSON_AMALGAMATED'', ''int x;''] amalgamator_in_header
        = Inr (write_out ''int x;'' (write_out ''#define SIMDJSON_AMALGAMATED''
                (write_out ''/* defining SIMDJSON_AMALGAMATED */''
                  (amalgamator_flag_defined\<lparr>found_includes_per_amalgamation := {}\<rparr>))))
   \<and> free_dependency_path ''simdjson.h'' = None"
proof -
  have h1: "\<not> editor_only_region amalgamator_in_header"
    by code_simp
  have h2: "define_amalgamated ''#define SIMDJSON_AMALGAMATED''
        \<or> undef_amalgamated ''#define SIMDJSON_AMALGAMATED''"
    by code_simp
  have h3: "is_amalgamated tree_arm64_twice ''simdjson/arm64.h'' (repository amalgamator_in_header)
        = Inr (True, repository_two_files
                 @ [(''simdjson/generic/dependencies.h'', new_file ''include'')])"
    by code_simp
  have h4: "write_lines 0 tree_arm64_twice ''simdjson.h''
        [''#define SIMDJSON_AMALGAMATED'', ''int x;''] amalgamator_in_header
        = Inr (write_out ''int x;'' (write_out ''#define SIMDJSON_AMALGAMATED''
                (write_out ''/* defining SIMDJSON_AMALGAMATED */''
                  (amalgamator_flag_defined\<lparr>found_includes_per_amalgamation := {}\<rparr>))))"
    by code_simp
  have h5: "define_amalgamated ''#define SIMDJSON_AMALGAMATED''"
    by code_simp
  from amalgamated_flag_in_amalgamated_file [OF h1 h2, of 0 tree_arm64_twice
      "''simdjson/arm64.h''" "[''int x;'']" _
      "repository_two_files @ [(''simdjson/generic/dependencies.h'', new_file ''include'')]"] h3 h5
  have c1: "write_lines 0 tree_arm64_twice ''simdjson/arm64.h''
        [''#define SIMDJSON_AMALGAMATED'', ''int x;''] amalgamator_in_header
        = Inl DefinedInAmalgamated"
    by simp
  from amalgamated_flag_in_amalgamated_file [OF h1 h2, of 0 tree_arm64_twice
      "''simdjson.h''" "[''int x;'']"] h4
  have c2: "free_dependency_path ''simdjson.h'' = None"
    by blast
  from h1 h2 h3 h4 c1 c2 show ?thesis by blast
qed

text \<open>
  Where the claim fails as it is written (a directive of the flag in a file that is not
  a free-dependency file is fatal). \<^verbatim>\<open>simdjson/arm64.h\<close> is an amalgamated file, its
  aggregator is \<^verbatim>\<open>simdjson/generic/dependencies.h\<close>. It holds an \<^verbatim>\<open>#undef\<close> and a
  definition of the flag inside its editor-only region, where the lines 307-316 print
  every line as a comment and go on to the next line: the run completes.
\<close>

theorem flag_directives_in_amalgamated_file:
  "free_dependency_path ''simdjson/arm64.h'' = Some ''simdjson/generic/dependencies.h''
   \<and> undef_amalgamated ''#undef SIMDJSON_AMALGAMATED''
   \<and> define_amalgamated ''#define SIMDJSON_AMALGAMATED''
   \<and> amalgamate 2 tree_flag_toggled_in_editor_only ''simdjson.h'' ''2024-01-01'' =
     Inr [''/* auto-generated on 2024-01-01. Do not edit! */'',
          ''/* including simdjson.h:  */'',
          ''/* begin file simdjson.h */'',
          ''/* defining SIMDJSON_AMALGAMATED */'',
          ''#define SIMDJSON_AMALGAMATED'',
          ''/* including simdjson/arm64.h: #include \"simdjson/arm64.h\" */'',
          ''/* begin file simdjson/arm64.h */'',
          ''/* amalgamation skipped (editor-only): #ifndef SIMDJSON_AMALGAMATED */'',
          ''/* amalgamation skipped (editor-only): #undef SIMDJSON_AMALGAMATED */'',
          ''/* amalgamation skipped (editor-only): #define SIMDJSON_AMALGAMATED */'',
          ''/* amalgamation skipped (editor-only): #endif // SIMDJSON_AMALGAMATED */'',
          ''int x;'',
          ''/* end file simdjson/arm64.h */'',
          ''/* end file simdjson.h */'']"
  by code_simp

end
